theory Spec2Isabelle
  imports Main "HOL-Library.Multiset"
begin

section \<open>JavaScript strings\<close>

text \<open>
  A JavaScript string is a sequence of UTF-16 code units. The development models the
  strings whose code units lie in U+0000..U+00FF, where a code unit is a \<^typ>\<open>char\<close>
  and \<open>of_char\<close> reads its code. \<open>toLowerCase\<close>, \<open>trim\<close> and the character classes
  \<open>\w\<close> and \<open>\s\<close> map this range into itself, so every function below stays inside it.
\<close>

text \<open>\<open>\s\<close> of a regular expression, which is also what \<open>String.prototype.trim\<close> strips:
  TAB, LF, VT, FF, CR, SPACE and NO-BREAK SPACE are the white space and line terminators
  below U+0100.\<close>

definition is_space :: "char \<Rightarrow> bool" where
  "is_space c = (let n = of_char c :: nat in (9 \<le> n \<and> n \<le> 13) \<or> n = 32 \<or> n = 160)"

text \<open>\<open>\w\<close> without the \<open>i\<close> and \<open>u\<close> flags: \<open>[A-Za-z0-9_]\<close>.\<close>

definition is_word :: "char \<Rightarrow> bool" where
  "is_word c = (let n = of_char c :: nat in
     (65 \<le> n \<and> n \<le> 90) \<or> (97 \<le> n \<and> n \<le> 122) \<or> (48 \<le> n \<and> n \<le> 57) \<or> n = 95)"

text \<open>\<open>toLowerCase\<close> on one code unit: \<open>A\<close>..\<open>Z\<close> and the capital letters U+00C0..U+00DE
  (U+00D7, the multiplication sign, is no letter) move up by 32.\<close>

definition toLowerCase_char :: "char \<Rightarrow> char" where
  "toLowerCase_char c = (let n = of_char c :: nat in
     if (65 \<le> n \<and> n \<le> 90) \<or> (192 \<le> n \<and> n \<le> 222 \<and> n \<noteq> 215)
     then char_of (n + 32) else c)"

definition toLowerCase :: "string \<Rightarrow> string" where
  "toLowerCase s = map toLowerCase_char s"

definition trim :: "string \<Rightarrow> string" where
  "trim s = rev (dropWhile is_space (rev (dropWhile is_space s)))"

section \<open>Regular expressions\<close>

text \<open>
  The fragment of JavaScript regular expressions that the repository uses: a one-character
  atom (a literal or a class), a greedy \<open>+\<close> on such an atom, sequence, alternation and
  the anchors \<open>^\<close> and \<open>$\<close> (no \<open>m\<close> flag). A match state is the index reached in
  the subject and the rest of the subject from there. \<open>rmatch\<close> lists the states in
  which a match of the expression can end, in the order in which backtracking tries them.
\<close>

datatype regex =
    Atom "char \<Rightarrow> bool"
  | Plus "char \<Rightarrow> bool"
  | Seq regex regex
  | Alt regex regex
  | Bol
  | Eol

fun rmatch :: "regex \<Rightarrow> nat \<times> string \<Rightarrow> (nat \<times> string) list" where
  "rmatch (Atom P) (i, s) =
     (case s of [] \<Rightarrow> [] | c # cs \<Rightarrow> if P c then [(Suc i, cs)] else [])"
| "rmatch (Plus P) (i, s) =
     map (\<lambda>n. (i + n, drop n s)) (rev [1..<Suc (length (takeWhile P s))])"
| "rmatch (Seq r1 r2) st = concat (map (rmatch r2) (rmatch r1 st))"
| "rmatch (Alt r1 r2) st = rmatch r1 st @ rmatch r2 st"
| "rmatch Bol (i, s) = (if i = 0 then [(i, s)] else [])"
| "rmatch Eol (i, s) = (if s = [] then [(i, s)] else [])"

text \<open>The length of the match that starts at the current index, if there is one: the first
  alternative that backtracking reaches.\<close>

definition match_len :: "regex \<Rightarrow> nat \<times> string \<Rightarrow> nat option" where
  "match_len r st = (case rmatch r st of [] \<Rightarrow> None | (j, _) # _ \<Rightarrow> Some (j - fst st))"

text \<open>\<open>RegExp.prototype.test\<close>: a match may start at any index of the subject.\<close>

definition regex_test :: "regex \<Rightarrow> string \<Rightarrow> bool" where
  "regex_test r s = list_ex (\<lambda>k. rmatch r (k, drop k s) \<noteq> []) [0..<Suc (length s)]"

text \<open>\<open>String.prototype.replace\<close> with a global regular expression and a replacement
  string without \<open>$\<close> patterns: the subject is scanned from the left, each match is
  replaced and scanning goes on behind it; after an empty match it goes on one code unit
  further.\<close>

fun replace_all :: "regex \<Rightarrow> string \<Rightarrow> nat \<times> string \<Rightarrow> string" where
  "replace_all r rep (i, []) = (case match_len r (i, []) of None \<Rightarrow> [] | Some _ \<Rightarrow> rep)"
| "replace_all r rep (i, c # cs) =
     (case match_len r (i, c # cs) of
        None \<Rightarrow> c # replace_all r rep (Suc i, cs)
      | Some 0 \<Rightarrow> rep @ c # replace_all r rep (Suc i, cs)
      | Some (Suc n) \<Rightarrow> rep @ replace_all r rep (i + Suc n, drop n cs))"

definition replace :: "regex \<Rightarrow> string \<Rightarrow> string \<Rightarrow> string" where
  "replace r rep s = replace_all r rep (0, s)"

section \<open>The slug generator\<close>

text \<open>\<open>/[^\w\s-]/g\<close>\<close>

definition special_re :: regex where
  "special_re = Atom (\<lambda>c. \<not> (is_word c \<or> is_space c \<or> c = CHR ''-''))"

text \<open>\<open>/[\s_-]+/g\<close>\<close>

definition separators_re :: regex where
  "separators_re = Plus (\<lambda>c. is_space c \<or> c = CHR ''_'' \<or> c = CHR ''-'')"

text \<open>\<open>/^-+|-+$/g\<close>\<close>

definition edge_hyphens_re :: regex where
  "edge_hyphens_re =
     Alt (Seq Bol (Plus (\<lambda>c. c = CHR ''-''))) (Seq (Plus (\<lambda>c. c = CHR ''-'')) Eol)"

definition generateSlug :: "string \<Rightarrow> string" where
  "generateSlug text =
     replace edge_hyphens_re ''''
       (replace separators_re ''-''
         (replace special_re '''' (trim (toLowerCase text))))"

subsection \<open>The slug as the specification words it\<close>

definition is_separator :: "char \<Rightarrow> bool" where
  "is_separator c = (is_space c \<or> c = CHR ''_'' \<or> c = CHR ''-'')"

text \<open>Every character that is not a word character, white space or a hyphen is removed.\<close>

definition remove_special :: "string \<Rightarrow> string" where
  "remove_special s = filter (\<lambda>c. is_word c \<or> is_space c \<or> c = CHR ''-'') s"

text \<open>Every run of white space, underscores and hyphens becomes one hyphen; the flag says
  that the character before was part of a run.\<close>

primrec collapse_runs :: "bool \<Rightarrow> string \<Rightarrow> string" where
  "collapse_runs in_run [] = []"
| "collapse_runs in_run (c # cs) =
     (if is_separator c
      then (if in_run then collapse_runs True cs else CHR ''-'' # collapse_runs True cs)
      else c # collapse_runs False cs)"

definition strip_hyphens :: "string \<Rightarrow> string" where
  "strip_hyphens s =
     rev (dropWhile (\<lambda>c. c = CHR ''-'') (rev (dropWhile (\<lambda>c. c = CHR ''-'') s)))"

text \<open>The same for the end of the string alone.\<close>

definition strip_trailing :: "string \<Rightarrow> string" where
  "strip_trailing s = rev (dropWhile (\<lambda>c. c = CHR ''-'') (rev s))"

definition slug_spec :: "string \<Rightarrow> string" where
  "slug_spec title =
     strip_hyphens (collapse_runs False (remove_special (trim (toLowerCase title))))"

section \<open>The date and time normalizers\<close>

text \<open>
  A \<open>Date\<close> holds a time value: the milliseconds since 1970-01-01T00:00:00Z, an
  integer of at most 8.64e15 in absolute value, or NaN. The functions below are the
  abstract operations of ECMAScript on time values.
\<close>

definition msPerDay :: int where
  "msPerDay = 86400000"

definition Day :: "int \<Rightarrow> int" where
  "Day t = t div msPerDay"

definition DaysInYear :: "int \<Rightarrow> int" where
  "DaysInYear y =
     (if y mod 4 \<noteq> 0 then 365 else if y mod 100 \<noteq> 0 then 366
      else if y mod 400 \<noteq> 0 then 365 else 366)"

definition DayFromYear :: "int \<Rightarrow> int" where
  "DayFromYear y =
     365 * (y - 1970) + (y - 1969) div 4 - (y - 1901) div 100 + (y - 1601) div 400"

text \<open>The year of a day number: ECMAScript's \<open>YearFromTime\<close> is the largest \<open>y\<close> with
  \<open>DayFromYear y \<le> Day t\<close>. It is computed from the cycles of 400, 100, 4 and 1 years
  that start on 1601-01-01, which is day \<open>-134774\<close>.\<close>

definition YearFromDay :: "int \<Rightarrow> int" where
  "YearFromDay d =
     (let n = d + 134774;
          q400 = n div 146097; r400 = n mod 146097;
          q100 = min 3 (r400 div 36524); r100 = r400 - q100 * 36524;
          q4 = r100 div 1461; r4 = r100 mod 1461;
          q1 = min 3 (r4 div 365)
      in 1601 + 400 * q400 + 100 * q100 + 4 * q4 + q1)"

definition YearFromTime :: "int \<Rightarrow> int" where
  "YearFromTime t = YearFromDay (Day t)"

definition InLeapYear :: "int \<Rightarrow> int" where
  "InLeapYear t = (if DaysInYear (YearFromTime t) = 366 then 1 else 0)"

definition DayWithinYear :: "int \<Rightarrow> int" where
  "DayWithinYear t = Day t - DayFromYear (YearFromTime t)"

definition MonthFromTime :: "int \<Rightarrow> int" where
  "MonthFromTime t =
     (let d = DayWithinYear t; l = InLeapYear t in
      if d < 31 then 0 else if d < 59 + l then 1 else if d < 90 + l then 2
      else if d < 120 + l then 3 else if d < 151 + l then 4 else if d < 181 + l then 5
      else if d < 212 + l then 6 else if d < 243 + l then 7 else if d < 273 + l then 8
      else if d < 304 + l then 9 else if d < 334 + l then 10 else 11)"

definition DateFromTime :: "int \<Rightarrow> int" where
  "DateFromTime t =
     (let d = DayWithinYear t; l = InLeapYear t; m = MonthFromTime t in
      if m = 0 then d + 1 else if m = 1 then d - 30 else if m = 2 then d - 58 - l
      else if m = 3 then d - 89 - l else if m = 4 then d - 119 - l
      else if m = 5 then d - 150 - l else if m = 6 then d - 180 - l
      else if m = 7 then d - 211 - l else if m = 8 then d - 242 - l
      else if m = 9 then d - 272 - l else if m = 10 then d - 303 - l else d - 333 - l)"

definition HourFromTime :: "int \<Rightarrow> int" where
  "HourFromTime t = (t div 3600000) mod 24"

definition MinFromTime :: "int \<Rightarrow> int" where
  "MinFromTime t = (t div 60000) mod 60"

definition SecFromTime :: "int \<Rightarrow> int" where
  "SecFromTime t = (t div 1000) mod 60"

definition msFromTime :: "int \<Rightarrow> int" where
  "msFromTime t = t mod 1000"

definition digit_char :: "nat \<Rightarrow> char" where
  "digit_char d = ''0123456789'' ! d"

text \<open>The last \<open>w\<close> decimal digits of a number, with leading zeros.\<close>

primrec pad :: "nat \<Rightarrow> nat \<Rightarrow> string" where
  "pad 0 n = []"
| "pad (Suc w) n = pad w (n div 10) @ [digit_char (n mod 10)]"

text \<open>\<open>Date.prototype.toISOString\<close>: four digits for the years 0 to 9999, a sign and six
  digits for every other year.\<close>

definition toISOString :: "int \<Rightarrow> string" where
  "toISOString t =
     (let y = YearFromTime t in
      (if 0 \<le> y \<and> y \<le> 9999 then pad 4 (nat y)
       else (if y < 0 then CHR ''-'' else CHR ''+'') # pad 6 (nat \<bar>y\<bar>))
      @ ''-'' @ pad 2 (nat (MonthFromTime t + 1))
      @ ''-'' @ pad 2 (nat (DateFromTime t))
      @ ''T'' @ pad 2 (nat (HourFromTime t))
      @ '':'' @ pad 2 (nat (MinFromTime t))
      @ '':'' @ pad 2 (nat (SecFromTime t))
      @ ''.'' @ pad 3 (nat (msFromTime t)) @ ''Z'')"

text \<open>\<open>s.split(sep)[0]\<close> for a one-character separator: the part before its first
  occurrence.\<close>

definition split_first :: "char \<Rightarrow> string \<Rightarrow> string" where
  "split_first sep s = takeWhile (\<lambda>c. c \<noteq> sep) s"

text \<open>
  \<open>new Date(dateString)\<close> parses with the engine's parser, which ECMAScript leaves to
  the implementation outside the ISO format and which reads a date without offset in the
  host's time zone. The parser is therefore the parameter \<open>Date_parse\<close>: the time value of
  a string, or \<open>None\<close> for the invalid date, whose \<open>getTime()\<close> is NaN. The \<open>throw\<close>
  in the \<open>try\<close> block lands in the \<open>catch\<close> of the same function, and \<open>x || ''\<close>
  leaves a non-empty string as it is and turns the empty one into itself.
\<close>

definition normalizeDate :: "(string \<Rightarrow> int option) \<Rightarrow> string \<Rightarrow> string" where
  "normalizeDate Date_parse dateString =
     (case Date_parse dateString of
        None \<Rightarrow> trim dateString
      | Some t \<Rightarrow>
          (let d = split_first CHR ''T'' (toISOString t) in if d = [] then [] else d))"

definition normalizeTime :: "string \<Rightarrow> string" where
  "normalizeTime timeString = trim timeString"

section \<open>Documents, errors and the store\<close>

text \<open>
  What a rejected \<open>save\<close> carries: Mongoose's \<open>ValidationError\<close>, the duplicate key
  error (E11000) of a unique index, a \<open>TypeError\<close> of the runtime, or a plain \<open>Error\<close>
  with its message. A \<open>ValidationError\<close> holds its \<open>errors\<close>, an object with one key for
  each failing path: the set of the failing paths with their messages. The order in which
  Mongoose adds the keys is no part of the model.
\<close>

datatype error =
    ValidationError "(string \<times> string) set"
  | DuplicateKeyError string
  | TypeError string
  | Error string

type_synonym ObjectId = nat

text \<open>A stored document: \<open>_id\<close>, the two time stamps of \<open>timestamps: true\<close> (time values)
  and the paths of its schema.\<close>

record 'a document =
  doc_id :: ObjectId
  createdAt :: nat
  updatedAt :: nat
  paths :: 'a

text \<open>The paths of \<open>IEvent\<close>. At run time a string path may be undefined (\<open>None\<close>); an
  array path that nobody set holds Mongoose's default, the empty array.\<close>

record IEvent =
  title :: "string option"
  slug :: "string option"
  description :: "string option"
  overview :: "string option"
  image_field :: "string option"
  venue :: "string option"
  location :: "string option"
  date :: "string option"
  time :: "string option"
  mode :: "string option"
  audience :: "string option"
  agenda :: "string list"
  organizer :: "string option"
  tags :: "string list"

record IBooking =
  eventId :: "ObjectId option"
  email :: "string option"

text \<open>The two collections, each in the order of insertion, and the \<open>ObjectId\<close> that the
  next new document gets: no two documents share one.\<close>

record store =
  events :: "IEvent document list"
  bookings :: "IBooking document list"
  next_id :: ObjectId

section \<open>The Event model\<close>

text \<open>The setters of the schema run when a path is assigned: \<open>trim: true\<close> on every string
  path but \<open>mode\<close>, and \<open>lowercase: true\<close> on \<open>slug\<close> as well.\<close>

definition cast_Event :: "IEvent \<Rightarrow> IEvent" where
  "cast_Event p =
     p\<lparr> title := map_option trim (title p),
        slug := map_option (\<lambda>v. trim (toLowerCase v)) (slug p),
        description := map_option trim (description p),
        overview := map_option trim (overview p),
        image_field := map_option trim (image_field p),
        venue := map_option trim (venue p),
        location := map_option trim (location p),
        date := map_option trim (date p),
        time := map_option trim (time p),
        audience := map_option trim (audience p),
        organizer := map_option trim (organizer p) \<rparr>"

text \<open>The validators of one string path, in the order in which Mongoose runs them: the
  \<open>required\<close> validator, which rejects the undefined and the empty string, then the
  \<open>validate\<close> function of the schema, \<open>v.length > 0\<close>. The first failure is the error of
  the path.\<close>

definition validate_string ::
  "string \<Rightarrow> string \<Rightarrow> string \<Rightarrow> string option \<Rightarrow> (string \<times> string) set" where
  "validate_string path required_msg validate_msg v =
     (case v of
        None \<Rightarrow> {(path, required_msg)}
      | Some s \<Rightarrow>
          if s = [] then {(path, required_msg)}
          else if \<not> 0 < length s then {(path, validate_msg)}
          else {})"

text \<open>\<open>mode\<close>: \<open>required\<close>, then \<open>enum\<close>.\<close>

definition validate_mode :: "string option \<Rightarrow> (string \<times> string) set" where
  "validate_mode v =
     (case v of
        None \<Rightarrow> {(''mode'', ''Event mode is required'')}
      | Some s \<Rightarrow>
          if s = [] then {(''mode'', ''Event mode is required'')}
          else if s \<notin> set [''online'', ''offline'', ''hybrid'']
          then {(''mode'', ''`'' @ s @ ''` is not a valid enum value for path `mode`.'')}
          else {})"

text \<open>An array path: \<open>required\<close> accepts every array, the empty one too; the \<open>validate\<close>
  function of the schema is \<open>Array.isArray(v) && v.length > 0\<close>.\<close>

definition validate_array :: "string \<Rightarrow> string \<Rightarrow> string list \<Rightarrow> (string \<times> string) set" where
  "validate_array path validate_msg v = (if \<not> 0 < length v then {(path, validate_msg)} else {})"

text \<open>The validation of a document runs the validators of every path of the schema and
  collects the failures of all of them: it does not stop at the first.\<close>

definition Event_validate :: "IEvent \<Rightarrow> (string \<times> string) set" where
  "Event_validate this =
     validate_string ''title'' ''Event title is required'' ''Event title cannot be empty''
       (title this)
     \<union> validate_string ''description'' ''Event description is required''
         ''Event description cannot be empty'' (description this)
     \<union> validate_string ''overview'' ''Event overview is required''
         ''Event overview cannot be empty'' (overview this)
     \<union> validate_string ''image'' ''Event image is required'' ''Event image cannot be empty''
         (image_field this)
     \<union> validate_string ''venue'' ''Event venue is required'' ''Event venue cannot be empty''
         (venue this)
     \<union> validate_string ''location'' ''Event location is required''
         ''Event location cannot be empty'' (location this)
     \<union> validate_string ''date'' ''Event date is required'' ''Event date cannot be empty''
         (date this)
     \<union> validate_string ''time'' ''Event time is required'' ''Event time cannot be empty''
         (time this)
     \<union> validate_mode (mode this)
     \<union> validate_string ''audience'' ''Event audience is required''
         ''Event audience cannot be empty'' (audience this)
     \<union> validate_array ''agenda'' ''Event agenda must be a non-empty array'' (agenda this)
     \<union> validate_string ''organizer'' ''Event organizer is required''
         ''Event organizer cannot be empty'' (organizer this)
     \<union> validate_array ''tags'' ''Event tags must be a non-empty array'' (tags this)"

text \<open>\<open>!v\<close> on a string path: undefined and the empty string are falsy.\<close>

definition falsy :: "string option \<Rightarrow> bool" where
  "falsy v = (v = None \<or> v = Some [])"

text \<open>The pre-save hook of the Event schema, one definition for each of its three
  statements. \<open>modified\<close> lists the paths for which \<open>isModified\<close> holds. An assignment to
  \<open>this.slug\<close>, \<open>this.date\<close> or \<open>this.time\<close> runs the setters of the path. A helper
  that is handed an undefined path throws a \<open>TypeError\<close> at its first method call.\<close>

definition slug_step :: "string list \<Rightarrow> IEvent \<Rightarrow> error + IEvent" where
  "slug_step modified this =
     (if ''title'' \<in> set modified \<or> falsy (slug this)
      then (case title this of
              None \<Rightarrow> Inl (TypeError ''toLowerCase'')
            | Some t \<Rightarrow> Inr (this\<lparr>slug := Some (trim (toLowerCase (generateSlug t)))\<rparr>))
      else Inr this)"

definition date_step :: "(string \<Rightarrow> int option) \<Rightarrow> string list \<Rightarrow> IEvent \<Rightarrow> error + IEvent" where
  "date_step Date_parse modified this =
     (if ''date'' \<in> set modified
      then (case date this of
              None \<Rightarrow> Inl (TypeError ''trim'')
            | Some d \<Rightarrow> Inr (this\<lparr>date := Some (trim (normalizeDate Date_parse d))\<rparr>))
      else Inr this)"

definition time_step :: "string list \<Rightarrow> IEvent \<Rightarrow> error + IEvent" where
  "time_step modified this =
     (if ''time'' \<in> set modified
      then (case time this of
              None \<Rightarrow> Inl (TypeError ''trim'')
            | Some t \<Rightarrow> Inr (this\<lparr>time := Some (trim (normalizeTime t))\<rparr>))
      else Inr this)"

definition Event_pre_save ::
  "(string \<Rightarrow> int option) \<Rightarrow> string list \<Rightarrow> IEvent \<Rightarrow> error + IEvent" where
  "Event_pre_save Date_parse modified this =
     (case slug_step modified this of
        Inl e \<Rightarrow> Inl e
      | Inr this1 \<Rightarrow>
          (case date_step Date_parse modified this1 of
             Inl e \<Rightarrow> Inl e
           | Inr this2 \<Rightarrow> time_step modified this2))"

text \<open>On a new document \<open>isModified\<close> holds for the string paths that the payload set.\<close>

definition set_paths :: "IEvent \<Rightarrow> string list" where
  "set_paths p =
     map fst (filter (\<lambda>(name, v). v \<noteq> None)
       [(''title'', title p), (''slug'', slug p), (''description'', description p),
        (''overview'', overview p), (''image'', image_field p), (''venue'', venue p),
        (''location'', location p), (''date'', date p), (''time'', time p),
        (''mode'', mode p), (''audience'', audience p), (''organizer'', organizer p)])"

text \<open>
  \<open>Event.create(payload)\<close> at the time \<open>now\<close>: the document is built with the setters,
  validated (Mongoose validates before the pre-save hooks of the schema), passed through
  the pre-save hook, and inserted unless the unique index on \<open>slug\<close> already holds its
  slug. The result is the outcome with the store after it.
\<close>

definition Event_create ::
  "(string \<Rightarrow> int option) \<Rightarrow> nat \<Rightarrow> store \<Rightarrow> IEvent \<Rightarrow> (error + IEvent document) \<times> store" where
  "Event_create Date_parse now st payload =
     (let this = cast_Event payload in
      if Event_validate this \<noteq> {} then (Inl (ValidationError (Event_validate this)), st)
      else
        (case Event_pre_save Date_parse (set_paths payload) this of
           Inl err \<Rightarrow> (Inl err, st)
         | Inr this' \<Rightarrow>
             if list_ex (\<lambda>d. slug (paths d) = slug this') (events st)
             then (Inl (DuplicateKeyError ''slug''), st)
             else
               (let doc = \<lparr>doc_id = next_id st, createdAt = now, updatedAt = now,
                            paths = this'\<rparr>
                in (Inr doc, st\<lparr>events := events st @ [doc], next_id := Suc (next_id st)\<rparr>))))"

section \<open>The Booking model\<close>

text \<open>\<open>/^[^\s@]+@[^\s@]+\.[^\s@]+$/\<close>\<close>

definition emailRegex :: regex where
  "emailRegex =
     Seq Bol
       (Seq (Plus (\<lambda>c. \<not> (is_space c \<or> c = CHR ''@'')))
         (Seq (Atom (\<lambda>c. c = CHR ''@''))
           (Seq (Plus (\<lambda>c. \<not> (is_space c \<or> c = CHR ''@'')))
             (Seq (Atom (\<lambda>c. c = CHR ''.''))
               (Seq (Plus (\<lambda>c. \<not> (is_space c \<or> c = CHR ''@''))) Eol)))))"

definition cast_Booking :: "IBooking \<Rightarrow> IBooking" where
  "cast_Booking p = p\<lparr>email := map_option (\<lambda>v. trim (toLowerCase v)) (email p)\<rparr>"

definition Booking_validate :: "IBooking \<Rightarrow> (string \<times> string) set" where
  "Booking_validate this =
     (case eventId this of
        None \<Rightarrow> {(''eventId'', ''Event ID is required'')}
      | Some _ \<Rightarrow> {})
     \<union> (case email this of
          None \<Rightarrow> {(''email'', ''Email is required'')}
        | Some v \<Rightarrow>
            if v = [] then {(''email'', ''Email is required'')}
            else if \<not> regex_test emailRegex v
            then {(''email'', ''Please provide a valid email address'')}
            else {})"

definition findById :: "store \<Rightarrow> ObjectId \<Rightarrow> IEvent document option" where
  "findById st i = find (\<lambda>d. doc_id d = i) (events st)"

definition hex_digit :: "nat \<Rightarrow> char" where
  "hex_digit d = ''0123456789abcdef'' ! d"

primrec hex_pad :: "nat \<Rightarrow> nat \<Rightarrow> string" where
  "hex_pad 0 n = []"
| "hex_pad (Suc w) n = hex_pad w (n div 16) @ [hex_digit (n mod 16)]"

text \<open>An \<open>ObjectId\<close> in a template string: its 24 hexadecimal digits.\<close>

definition ObjectId_toString :: "ObjectId \<Rightarrow> string" where
  "ObjectId_toString i = hex_pad 24 i"

text \<open>The pre-save hook of the Booking schema: \<open>next(error)\<close> rejects the save,
  \<open>next()\<close> lets it go on. The store of the model does not fail, so the \<open>catch\<close> of the
  hook has no case here.\<close>

definition Booking_pre_save :: "store \<Rightarrow> IBooking \<Rightarrow> error + IBooking" where
  "Booking_pre_save st this =
     (case eventId this of
        None \<Rightarrow> Inl (Error ''Event with ID undefined does not exist'')
      | Some i \<Rightarrow>
          (case findById st i of
             None \<Rightarrow> Inl (Error (''Event with ID '' @ ObjectId_toString i @ '' does not exist''))
           | Some event \<Rightarrow> Inr this))"

definition Booking_create ::
  "nat \<Rightarrow> store \<Rightarrow> IBooking \<Rightarrow> (error + IBooking document) \<times> store" where
  "Booking_create now st payload =
     (let this = cast_Booking payload in
      if Booking_validate this \<noteq> {} then (Inl (ValidationError (Booking_validate this)), st)
      else
        (case Booking_pre_save st this of
           Inl err \<Rightarrow> (Inl err, st)
         | Inr this' \<Rightarrow>
             (let doc = \<lparr>doc_id = next_id st, createdAt = now, updatedAt = now,
                          paths = this'\<rparr>
              in (Inr doc, st\<lparr>bookings := bookings st @ [doc], next_id := Suc (next_id st)\<rparr>))))"

section \<open>The route handlers\<close>

text \<open>The JSON bodies of the responses: a message alone, or a message with the event,
  with the events, with the message of an error, or with an \<open>Error\<close> object itself, which
  JSON writes as the empty object.\<close>

datatype body =
    Message string
  | MessageEvent string "IEvent document"
  | MessageEvents string "IEvent document list"
  | MessageError string string
  | MessageErrorObject string

datatype response = Response (status: nat) (body: body)

text \<open>What \<open>await connectDB()\<close> gives a handler: the store, or the message of the
  \<open>Error\<close> it threw. \<open>connectDB\<close> throws when the environment has no \<open>MONGODB_URI\<close> and
  passes on the outcome of \<open>mongoose.connect\<close> otherwise; the cache of the connection does
  not change what a handler sees. Every value thrown is an \<open>Error\<close>, so the last branch
  of the handlers' \<open>catch\<close>, for other values, has no case here.\<close>

definition connectDB :: "string option \<Rightarrow> string + store \<Rightarrow> string + store" where
  "connectDB MONGODB_URI connection =
     (if falsy MONGODB_URI
      then Inl ''Please define the MONGODB_URI environment variable inside .env.local''
      else connection)"

text \<open>\<open>String.prototype.includes\<close>\<close>

definition string_includes :: "string \<Rightarrow> string \<Rightarrow> bool" where
  "string_includes s sub = list_ex (\<lambda>k. take (length sub) (drop k s) = sub) [0..<Suc (length s)]"

text \<open>\<open>Event.findOne({ slug: v })\<close>: the first document in the order of insertion.\<close>

definition findOne_slug :: "store \<Rightarrow> string \<Rightarrow> IEvent document option" where
  "findOne_slug st v = find (\<lambda>d. slug (paths d) = Some v) (events st)"

text \<open>\<open>GET /events/[slug]\<close>, with the outcome of \<open>connectDB\<close> and the route parameter.\<close>

definition GET_event_by_slug :: "string + store \<Rightarrow> string \<Rightarrow> response" where
  "GET_event_by_slug db slug_param =
     (case db of
        Inl msg \<Rightarrow>
          if string_includes msg ''MONGODB_URI''
          then Response 500 (Message ''Database configuration error'')
          else Response 500 (MessageError ''Failed to fetch event'' msg)
      | Inr st \<Rightarrow>
          if slug_param = [] \<or> trim slug_param = []
          then Response 400 (Message ''Invalid or missing slug parameter'')
          else
            (let sanitizedSlug = toLowerCase (trim slug_param) in
             case findOne_slug st sanitizedSlug of
               None \<Rightarrow>
                 Response 404 (Message (''Event with slug: '' @ sanitizedSlug @ '' not found''))
             | Some event \<Rightarrow> Response 200 (MessageEvent ''Event fetched successfully'' event)))"

text \<open>\<open>Event.find().sort({createdAt: -1})\<close>. MongoDB fixes no order among equal keys; the
  model takes the later insertion first.\<close>

definition find_sorted_desc :: "store \<Rightarrow> IEvent document list" where
  "find_sorted_desc st = rev (sort_key createdAt (events st))"

text \<open>\<open>GET /events\<close>\<close>

definition GET_events :: "string + store \<Rightarrow> response" where
  "GET_events db =
     (case db of
        Inl msg \<Rightarrow> Response 500 (MessageErrorObject ''Event fetching failed.'')
      | Inr st \<Rightarrow> Response 200 (MessageEvents ''Event fetched successfully.'' (find_sorted_desc st)))"

definition empty_store :: store where
  "empty_store = \<lparr>events = [], bookings = [], next_id = 0\<rparr>"

section \<open>The validation as the specification words it\<close>

text \<open>A required string is absent or empty.\<close>

definition absent_or_empty :: "string option \<Rightarrow> bool" where
  "absent_or_empty v = (v = None \<or> v = Some [])"

text \<open>The fields that break a rule, in the order of the schema: a required string that is
  absent or empty, a \<open>mode\<close> outside online, offline and hybrid, an empty \<open>agenda\<close> or
  \<open>tags\<close>.\<close>

definition invalid_paths :: "IEvent \<Rightarrow> string list" where
  "invalid_paths this =
     map fst (filter snd
       [(''title'', absent_or_empty (title this)),
        (''description'', absent_or_empty (description this)),
        (''overview'', absent_or_empty (overview this)),
        (''image'', absent_or_empty (image_field this)),
        (''venue'', absent_or_empty (venue this)),
        (''location'', absent_or_empty (location this)),
        (''date'', absent_or_empty (date this)),
        (''time'', absent_or_empty (time this)),
        (''mode'', mode this \<notin> set [Some ''online'', Some ''offline'', Some ''hybrid'']),
        (''audience'', absent_or_empty (audience this)),
        (''agenda'', agenda this = []),
        (''organizer'', absent_or_empty (organizer this)),
        (''tags'', tags this = [])])"

section \<open>Sample data\<close>

text \<open>A payload with every field of the schema but the slug, around a given title; the
  values follow the first entry of the event list of the front end.\<close>

definition sample_payload :: "string \<Rightarrow> IEvent" where
  "sample_payload t =
     \<lparr>title = Some t, slug = None, description = Some ''The React conference'',
      overview = Some ''Two days of talks'', image_field = Some ''/images/event1.png'',
      venue = Some ''Convention Center'', location = Some ''Las Vegas, NV'',
      date = Some ''October 15-16, 2024'', time = Some ''9:00 AM - 6:00 PM'',
      mode = Some ''offline'', audience = Some ''Developers'', agenda = [''Keynote''],
      organizer = Some ''Meta'', tags = [''react'']\<rparr>"

text \<open>A parser that takes no string for a date: \<open>normalizeDate\<close> then falls back to the
  trimmed input.\<close>

definition parse_nothing :: "string \<Rightarrow> int option" where
  "parse_nothing s = None"

text \<open>A parser that knows two strings of the ISO format, with the time values ECMAScript
  gives them, and takes every other string for no date.\<close>

definition parse_two_dates :: "string \<Rightarrow> int option" where
  "parse_two_dates s =
     (if s = ''2024-10-15'' then Some 1728950400000
      else if s = ''+010000-01-01T00:00:00.000Z'' then Some 253402300800000
      else None)"

text \<open>The store after one creation: of the event titled \<open>React Conf 2024!\<close>, and of an
  event whose title has no word character.\<close>

definition store_with_event :: store where
  "store_with_event =
     snd (Event_create parse_nothing 1 empty_store (sample_payload ''React Conf 2024!''))"

definition store_with_empty_slug :: store where
  "store_with_empty_slug =
     snd (Event_create parse_nothing 1 empty_store (sample_payload ''!!!''))"

section \<open>Properties of the regular expressions\<close>

lemma rev_upt_Suc: "0 < k \<Longrightarrow> rev [Suc 0..<Suc k] = k # rev [Suc 0..<k]"
  by (cases k) auto

lemma match_len_Plus:
  "match_len (Plus P) (i, s) =
     (if takeWhile P s = [] then None else Some (length (takeWhile P s)))"
proof (cases "takeWhile P s = []")
  case True
  then show ?thesis by (simp add: match_len_def)
next
  case False
  then have "0 < length (takeWhile P s)" by simp
  then show ?thesis using False by (simp add: match_len_def rev_upt_Suc del: upt_Suc)
qed

lemma match_len_Alt:
  "match_len (Alt r1 r2) st =
     (case match_len r1 st of Some n \<Rightarrow> Some n | None \<Rightarrow> match_len r2 st)"
  by (auto simp: match_len_def split: list.splits)

lemma match_len_Bol:
  "match_len (Seq Bol r) (i, s) = (if i = 0 then match_len r (i, s) else None)"
  by (auto simp: match_len_def split: list.splits)

lemma concat_Eol:
  "concat (map (rmatch Eol) (map (\<lambda>n. (i + n, drop n s)) ns)) =
     map (\<lambda>n. (i + n, [])) (filter (\<lambda>n. length s \<le> n) ns)"
  by (induction ns) auto

lemma filter_rev_upt:
  "k \<le> m \<Longrightarrow>
   filter (\<lambda>n. m \<le> n) (rev [Suc 0..<Suc k]) = (if k = m \<and> 0 < k then [k] else [])"
  by (induction k) auto

lemma match_len_Plus_Eol:
  "match_len (Seq (Plus P) Eol) (i, s) =
     (if s \<noteq> [] \<and> (\<forall>c \<in> set s. P c) then Some (length s) else None)"
proof -
  let ?k = "length (takeWhile P s)"
  have k: "?k \<le> length s" by (rule length_takeWhile_le)
  have all: "?k = length s \<longleftrightarrow> (\<forall>c \<in> set s. P c)"
    by (metis length_takeWhile_le takeWhile_eq_all_conv takeWhile_eq_take take_all_iff)
  have "rmatch (Seq (Plus P) Eol) (i, s) =
          concat (map (rmatch Eol) (map (\<lambda>n. (i + n, drop n s)) (rev [Suc 0..<Suc ?k])))"
    by (simp del: upt_Suc map_map)
  also have "\<dots> = map (\<lambda>n. (i + n, [])) (if ?k = length s \<and> 0 < ?k then [?k] else [])"
    unfolding concat_Eol filter_rev_upt[OF k] ..
  finally have "rmatch (Seq (Plus P) Eol) (i, s) =
          map (\<lambda>n. (i + n, [])) (if ?k = length s \<and> 0 < ?k then [?k] else [])" .
  then show ?thesis using all by (auto simp: match_len_def)
qed

lemma drop_takeWhile_length: "drop (length (takeWhile P s)) s = dropWhile P s"
  by (induction s) auto

section \<open>Properties of the slug generator\<close>

lemma replace_special: "replace_all special_re [] (i, s) = remove_special s"
  by (induction s arbitrary: i) (auto simp: special_re_def remove_special_def match_len_def)

lemma collapse_runs_True:
  "collapse_runs True s = collapse_runs False (dropWhile is_separator s)"
  by (induction s) auto

lemma replace_separators:
  "replace_all separators_re ''-'' (i, s) = collapse_runs False s"
proof (induction "length s" arbitrary: i s rule: less_induct)
  case less
  show ?case
  proof (cases s)
    case Nil
    then show ?thesis by (simp add: separators_re_def match_len_Plus)
  next
    case (Cons c cs)
    show ?thesis
    proof (cases "is_separator c")
      case False
      then show ?thesis using Cons less[of cs "Suc i"]
        by (simp add: separators_re_def match_len_Plus is_separator_def)
    next
      case True
      have len: "length (dropWhile is_separator cs) < length s"
        using Cons length_dropWhile_le[of is_separator cs] by simp
      have "replace_all separators_re ''-'' (i, s) =
              CHR ''-'' # replace_all separators_re ''-''
                (i + Suc (length (takeWhile is_separator cs)), dropWhile is_separator cs)"
        using True Cons
        by (simp add: separators_re_def match_len_Plus is_separator_def drop_takeWhile_length
              flip: is_separator_def[abs_def])
      also have "\<dots> = CHR ''-'' # collapse_runs False (dropWhile is_separator cs)"
        using less[OF len] by simp
      also have "\<dots> = collapse_runs False s"
        using True Cons by (simp add: collapse_runs_True)
      finally show ?thesis .
    qed
  qed
qed

lemma strip_trailing_Cons:
  "strip_trailing (c # cs) =
     (if c = CHR ''-'' \<and> (\<forall>x \<in> set cs. x = CHR ''-'') then [] else c # strip_trailing cs)"
  by (auto simp: strip_trailing_def dropWhile_append)

lemma strip_hyphens_alt:
  "strip_hyphens s = strip_trailing (dropWhile (\<lambda>c. c = CHR ''-'') s)"
  by (simp add: strip_hyphens_def strip_trailing_def)

lemma match_len_edge:
  "match_len edge_hyphens_re (i, s) =
     (if i = 0 \<and> takeWhile (\<lambda>c. c = CHR ''-'') s \<noteq> []
      then Some (length (takeWhile (\<lambda>c. c = CHR ''-'') s))
      else if s \<noteq> [] \<and> (\<forall>c \<in> set s. c = CHR ''-'') then Some (length s) else None)"
  by (simp add: edge_hyphens_re_def match_len_Alt match_len_Bol match_len_Plus
        match_len_Plus_Eol)

lemma replace_edge_pos:
  "0 < i \<Longrightarrow> replace_all edge_hyphens_re [] (i, s) = strip_trailing s"
proof (induction s arbitrary: i)
  case Nil
  then show ?case by (simp add: match_len_edge strip_trailing_def)
next
  case (Cons c cs)
  show ?case
  proof (cases "c = CHR ''-'' \<and> (\<forall>x \<in> set cs. x = CHR ''-'')")
    case True
    then have "match_len edge_hyphens_re (i, c # cs) = Some (Suc (length cs))"
      using Cons.prems by (simp add: match_len_edge)
    then show ?thesis using True by (simp add: strip_trailing_Cons match_len_edge)
  next
    case False
    then have "match_len edge_hyphens_re (i, c # cs) = None"
      using Cons.prems by (auto simp add: match_len_edge)
    then show ?thesis using False Cons.IH[of "Suc i"] by (simp add: strip_trailing_Cons)
  qed
qed

lemma replace_edge: "replace_all edge_hyphens_re [] (0, s) = strip_hyphens s"
proof (cases s)
  case Nil
  then show ?thesis by (simp add: match_len_edge strip_hyphens_def)
next
  case (Cons c cs)
  show ?thesis
  proof (cases "c = CHR ''-''")
    case True
    then have "match_len edge_hyphens_re (0, c # cs) =
                 Some (Suc (length (takeWhile (\<lambda>c. c = CHR ''-'') cs)))"
      by (simp add: match_len_edge)
    then have "replace_all edge_hyphens_re [] (0, s) =
                 strip_trailing (dropWhile (\<lambda>c. c = CHR ''-'') cs)"
      using Cons by (simp add: replace_edge_pos drop_takeWhile_length)
    then show ?thesis using True Cons by (simp add: strip_hyphens_alt)
  next
    case False
    then have "match_len edge_hyphens_re (0, c # cs) = None"
      by (auto simp add: match_len_edge)
    then have "replace_all edge_hyphens_re [] (0, s) = c # strip_trailing cs"
      using Cons by (simp add: replace_edge_pos)
    then show ?thesis using False Cons by (simp add: strip_hyphens_alt strip_trailing_Cons)
  qed
qed

lemma generateSlug_slug_spec: "generateSlug t = slug_spec t"
  by (simp add: generateSlug_def slug_spec_def replace_def replace_special replace_separators
        replace_edge)

text \<open>
  C1. For every title the slug generator returns the title lowercased and trimmed, without
  the characters that are neither word characters, white space nor hyphens, with every run
  of white space, underscores and hyphens collapsed into one hyphen and without leading
  and trailing hyphens: the three replacements of the code compute \<open>slug_spec\<close>. The
  title \<open>React Conf 2024!\<close> gives \<open>react-conf-2024\<close>.
\<close>

theorem generateSlug_correct:
  "generateSlug t = slug_spec t
   \<and> generateSlug ''React Conf 2024!'' = ''react-conf-2024''"
proof
  show "generateSlug t = slug_spec t"
    by (rule generateSlug_slug_spec)
  show "generateSlug ''React Conf 2024!'' = ''react-conf-2024''"
    by code_simp
qed

section \<open>Properties of the string functions\<close>

lemma of_char_toLowerCase_char:
  "of_char (toLowerCase_char c) =
     (let n = of_char c :: nat in
      if (65 \<le> n \<and> n \<le> 90) \<or> (192 \<le> n \<and> n \<le> 222 \<and> n \<noteq> 215) then n + 32 else n)"
  by (auto simp: toLowerCase_char_def Let_def)

lemma toLowerCase_char_idem: "toLowerCase_char (toLowerCase_char c) = toLowerCase_char c"
proof -
  have "(of_char (toLowerCase_char (toLowerCase_char c)) :: nat) = of_char (toLowerCase_char c)"
    by (auto simp: of_char_toLowerCase_char Let_def)
  then show ?thesis by (simp only: of_char_eq_iff)
qed

lemma is_space_toLowerCase_char: "is_space (toLowerCase_char c) = is_space c"
  by (auto simp: is_space_def of_char_toLowerCase_char Let_def)

lemma is_word_toLowerCase_char: "is_word (toLowerCase_char c) = is_word c"
  by (auto simp: is_word_def of_char_toLowerCase_char Let_def)

lemma toLowerCase_hyphen: "toLowerCase_char CHR ''-'' = CHR ''-''"
  by (simp add: toLowerCase_char_def)

lemma toLowerCase_fixed:
  "\<forall>c \<in> set s. toLowerCase_char c = c \<Longrightarrow> toLowerCase s = s"
  by (simp add: toLowerCase_def map_idI)

lemma dropWhile_no: "\<forall>c \<in> set s. \<not> P c \<Longrightarrow> dropWhile P s = s"
  by (cases s) auto

lemma trim_no_space: "\<forall>c \<in> set s. \<not> is_space c \<Longrightarrow> trim s = s"
  by (simp add: trim_def dropWhile_no)

lemma set_trim: "set (trim s) \<subseteq> set s"
proof -
  have "set (trim s) = set (dropWhile is_space (rev (dropWhile is_space s)))"
    by (simp add: trim_def)
  also have "\<dots> \<subseteq> set (rev (dropWhile is_space s))" by (rule set_dropWhileD[THEN subsetI])
  also have "\<dots> \<subseteq> set s" using set_dropWhileD[of _ is_space s] by auto
  finally show ?thesis .
qed

lemma dropWhile_fixed_iff: "dropWhile P u = u \<longleftrightarrow> u = [] \<or> \<not> P (hd u)"
proof (cases u)
  case Nil
  then show ?thesis by simp
next
  case (Cons a list)
  have "dropWhile P list \<noteq> a # list"
    using length_dropWhile_le[of P list] by (auto dest: arg_cong[where f = length])
  then show ?thesis using Cons by simp
qed

lemma dropWhile_rev_fixed:
  "dropWhile P u = u \<Longrightarrow> dropWhile P (rev (dropWhile P (rev u))) = rev (dropWhile P (rev u))"
proof (induction u rule: rev_induct)
  case Nil
  then show ?case by simp
next
  case (snoc x xs)
  show ?case
  proof (cases "P x")
    case False
    then show ?thesis using snoc.prems by simp
  next
    case True
    have "xs \<noteq> []" using True snoc.prems by (cases xs) auto
    moreover have "\<not> P (hd (xs @ [x]))"
      using snoc.prems unfolding dropWhile_fixed_iff by blast
    ultimately have "\<not> P (hd xs)" by simp
    then have "dropWhile P xs = xs" unfolding dropWhile_fixed_iff by blast
    then show ?thesis using True snoc.IH by simp
  qed
qed

lemma trim_idem: "trim (trim s) = trim s"
proof -
  let ?u = "dropWhile is_space s"
  have u: "dropWhile is_space ?u = ?u" by (rule dropWhile_idem)
  have "dropWhile is_space (rev (dropWhile is_space (rev ?u))) = rev (dropWhile is_space (rev ?u))"
    by (rule dropWhile_rev_fixed[OF u])
  then show ?thesis by (simp add: trim_def dropWhile_idem)
qed

lemma toLowerCase_trim: "toLowerCase (trim s) = trim (toLowerCase s)"
proof -
  have comp: "is_space \<circ> toLowerCase_char = is_space"
    by (rule ext) (simp add: is_space_toLowerCase_char)
  show ?thesis
    by (simp add: toLowerCase_def trim_def dropWhile_map rev_map comp)
qed

lemma set_collapse_runs:
  "set (collapse_runs b s) \<subseteq> insert CHR ''-'' {c \<in> set s. \<not> is_separator c}"
  by (induction s arbitrary: b) auto

lemma set_dropWhile_subset: "set (dropWhile P xs) \<subseteq> set xs"
  using set_dropWhileD by fast

lemma set_strip_hyphens: "set (strip_hyphens s) \<subseteq> set s"
proof -
  have "set (strip_hyphens s) \<subseteq> set (dropWhile (\<lambda>c. c = CHR ''-'') s)"
    using set_dropWhile_subset[of "\<lambda>c. c = CHR ''-''" "rev (dropWhile (\<lambda>c. c = CHR ''-'') s)"]
    by (simp add: strip_hyphens_def)
  then show ?thesis
    using set_dropWhile_subset[of "\<lambda>c. c = CHR ''-''" s] by blast
qed

lemma slug_chars:
  assumes "c \<in> set (generateSlug t)"
  shows "c = CHR ''-'' \<or> (\<not> is_separator c \<and> (\<exists>x. c = toLowerCase_char x))"
proof -
  from assms have "c \<in> set (collapse_runs False (remove_special (trim (toLowerCase t))))"
    using set_strip_hyphens by (auto simp: generateSlug_slug_spec slug_spec_def)
  then have "c = CHR ''-'' \<or> (c \<in> set (remove_special (trim (toLowerCase t))) \<and> \<not> is_separator c)"
    using set_collapse_runs by fastforce
  moreover have "set (remove_special (trim (toLowerCase t))) \<subseteq> set (toLowerCase t)"
    using set_trim by (auto simp: remove_special_def)
  ultimately show ?thesis by (auto simp: toLowerCase_def)
qed

lemma toLowerCase_generateSlug: "toLowerCase (generateSlug t) = generateSlug t"
  by (rule toLowerCase_fixed)
     (auto dest!: slug_chars simp: toLowerCase_char_idem toLowerCase_hyphen)

lemma trim_generateSlug: "trim (generateSlug t) = generateSlug t"
proof (rule trim_no_space, rule ballI)
  fix c assume "c \<in> set (generateSlug t)"
  then have "c = CHR ''-'' \<or> \<not> is_separator c" using slug_chars by blast
  then show "\<not> is_space c" by (auto simp: is_separator_def is_space_def)
qed

lemma generateSlug_trim: "generateSlug (trim t) = generateSlug t"
  by (simp add: generateSlug_def toLowerCase_trim trim_idem)

lemma collapse_runs_separators:
  "\<forall>c \<in> set s. is_separator c \<Longrightarrow>
   collapse_runs b s = (if b \<or> s = [] then [] else ''-'')"
  by (induction s arbitrary: b) auto

lemma generateSlug_no_word:
  assumes "\<forall>c \<in> set t. \<not> is_word c"
  shows "generateSlug t = []"
proof -
  let ?s = "remove_special (trim (toLowerCase t))"
  have "\<forall>c \<in> set (toLowerCase t). \<not> is_word c"
    using assms by (auto simp: toLowerCase_def is_word_toLowerCase_char)
  then have "\<forall>c \<in> set (trim (toLowerCase t)). \<not> is_word c"
    using set_trim by blast
  then have "\<forall>c \<in> set ?s. is_separator c"
    by (auto simp: remove_special_def is_separator_def)
  then have "collapse_runs False ?s = (if ?s = [] then [] else ''-'')"
    by (simp add: collapse_runs_separators)
  then show ?thesis
    by (simp add: generateSlug_slug_spec slug_spec_def strip_hyphens_def)
qed

section \<open>Properties of the date normalizer\<close>

lemma digit_char_no_space: "d < 10 \<Longrightarrow> \<not> is_space (digit_char d)"
proof -
  assume "d < 10"
  then have "digit_char d \<in> set ''0123456789''"
    unfolding digit_char_def by (intro nth_mem) simp
  then show ?thesis by (auto simp: is_space_def)
qed

lemma pad_no_space: "c \<in> set (pad w n) \<Longrightarrow> \<not> is_space c"
  by (induction w arbitrary: n) (auto simp: digit_char_no_space)

lemma toISOString_no_space: "c \<in> set (toISOString t) \<Longrightarrow> \<not> is_space c"
  unfolding toISOString_def Let_def
  by (auto dest: pad_no_space simp: is_space_def split: if_splits)

lemma trim_normalizeDate: "trim (normalizeDate Date_parse d) = normalizeDate Date_parse d"
proof (cases "Date_parse d")
  case None
  then show ?thesis by (simp add: normalizeDate_def trim_idem)
next
  case (Some t)
  have "\<forall>c \<in> set (split_first CHR ''T'' (toISOString t)). \<not> is_space c"
    unfolding split_first_def using toISOString_no_space set_takeWhileD by fast
  then have "trim (split_first CHR ''T'' (toISOString t)) = split_first CHR ''T'' (toISOString t)"
    by (rule trim_no_space)
  then show ?thesis using Some by (simp add: normalizeDate_def Let_def)
qed

section \<open>Properties of the Event model\<close>

lemma validate_string_Nil:
  "validate_string path r m v = {} \<longleftrightarrow> (\<exists>s. v = Some s \<and> s \<noteq> [])"
  by (auto simp: validate_string_def split: option.splits)

lemma Event_validate_Nil:
  assumes "Event_validate this = {}"
  shows "\<exists>t d tm. title this = Some t \<and> t \<noteq> [] \<and> date this = Some d \<and> time this = Some tm"
  using assms unfolding Event_validate_def Un_empty validate_string_Nil by blast

lemma Event_pre_save_result:
  assumes "title this = Some t" and "date this = Some d" and "time this = Some tm"
  shows "Event_pre_save Date_parse modified this =
           Inr (this\<lparr>
             slug := (if ''title'' \<in> set modified \<or> falsy (slug this)
                      then Some (generateSlug t) else slug this),
             date := (if ''date'' \<in> set modified
                      then Some (normalizeDate Date_parse d) else date this),
             time := (if ''time'' \<in> set modified then Some (trim tm) else time this)\<rparr>)"
  using assms
  by (simp add: Event_pre_save_def slug_step_def date_step_def time_step_def normalizeTime_def
        toLowerCase_generateSlug trim_generateSlug trim_normalizeDate trim_idem)

lemma set_paths_title: "title p \<noteq> None \<Longrightarrow> ''title'' \<in> set (set_paths p)"
  by (simp add: set_paths_def)

lemma cast_Event_title: "title (cast_Event p) = map_option trim (title p)"
  by (simp add: cast_Event_def)

lemma valid_pre_save:
  assumes "Event_validate (cast_Event p) = {}" and "title p = Some t"
  shows "\<exists>this'. Event_pre_save Date_parse (set_paths p) (cast_Event p) = Inr this'
           \<and> slug this' = Some (generateSlug t) \<and> title this' = Some (trim t)"
proof -
  obtain t' d tm where f: "title (cast_Event p) = Some t'" "date (cast_Event p) = Some d"
      "time (cast_Event p) = Some tm"
    using Event_validate_Nil[OF assms(1)] by blast
  have t': "t' = trim t" using f(1) assms(2) by (simp add: cast_Event_title)
  have m: "''title'' \<in> set (set_paths p)" using assms(2) by (simp add: set_paths_title)
  show ?thesis
    unfolding Event_pre_save_result[OF f] using m f(1) t' by (simp add: generateSlug_trim)
qed


lemma Event_create_taken:
  assumes "Event_validate (cast_Event p) = {}" and "title p = Some t"
    and "list_ex (\<lambda>d. slug (paths d) = Some (generateSlug t)) (events st)"
  shows "Event_create Date_parse now st p = (Inl (DuplicateKeyError ''slug''), st)"
proof -
  obtain this' where "Event_pre_save Date_parse (set_paths p) (cast_Event p) = Inr this'"
      "slug this' = Some (generateSlug t)"
    using valid_pre_save[OF assms(1,2)] by blast
  then show ?thesis using assms(1,3) by (simp add: Event_create_def Let_def)
qed

lemma Event_create_fresh:
  assumes "Event_validate (cast_Event p) = {}" and "title p = Some t"
    and "\<not> list_ex (\<lambda>d. slug (paths d) = Some (generateSlug t)) (events st)"
  shows "\<exists>this'. slug this' = Some (generateSlug t) \<and> title this' = Some (trim t)
           \<and> Event_create Date_parse now st p =
               (Inr \<lparr>doc_id = next_id st, createdAt = now, updatedAt = now, paths = this'\<rparr>,
                st\<lparr>events := events st
                       @ [\<lparr>doc_id = next_id st, createdAt = now, updatedAt = now, paths = this'\<rparr>],
                    next_id := Suc (next_id st)\<rparr>)"
proof -
  obtain this' where h: "Event_pre_save Date_parse (set_paths p) (cast_Event p) = Inr this'"
      "slug this' = Some (generateSlug t)" "title this' = Some (trim t)"
    using valid_pre_save[OF assms(1,2)] by blast
  then have "Event_create Date_parse now st p =
               (Inr \<lparr>doc_id = next_id st, createdAt = now, updatedAt = now, paths = this'\<rparr>,
                st\<lparr>events := events st
                       @ [\<lparr>doc_id = next_id st, createdAt = now, updatedAt = now, paths = this'\<rparr>],
                    next_id := Suc (next_id st)\<rparr>)"
    using assms(1,3) by (simp add: Event_create_def Let_def)
  then show ?thesis using h by blast
qed

lemma Event_create_Inr:
  assumes "Event_create Date_parse now st p = (Inr doc, st')"
  shows "createdAt doc = now \<and> doc_id doc = next_id st \<and> events st' = events st @ [doc]
         \<and> bookings st' = bookings st
         \<and> \<not> list_ex (\<lambda>d. slug (paths d) = slug (paths doc)) (events st)"
  using assms
  by (auto simp: Event_create_def Let_def split: sum.splits if_splits)

lemma Event_create_Inl:
  "Event_create Date_parse now st p = (Inl e, st') \<Longrightarrow> st' = st"
  by (auto simp: Event_create_def Let_def split: sum.splits if_splits)

lemma Event_create_distinct_slugs:
  assumes "distinct (map (\<lambda>d. slug (paths d)) (events st))"
  shows "distinct (map (\<lambda>d. slug (paths d)) (events (snd (Event_create Date_parse now st p))))"
proof (cases "Event_create Date_parse now st p")
  case (Pair r st')
  show ?thesis
  proof (cases r)
    case (Inl e)
    then show ?thesis using Pair assms Event_create_Inl by fastforce
  next
    case (Inr doc)
    then have "events st' = events st @ [doc]"
        "\<not> list_ex (\<lambda>d. slug (paths d) = slug (paths doc)) (events st)"
      using Pair Event_create_Inr by blast+
    then show ?thesis using Pair assms by (auto simp: list_ex_iff)
  qed
qed

section \<open>Validation of an Event\<close>

lemma fst_validate_string:
  "fst ` validate_string path r m v = (if absent_or_empty v then {path} else {})"
  by (auto simp: validate_string_def absent_or_empty_def split: option.splits)

lemma fst_validate_mode:
  "fst ` validate_mode v =
     (if v \<notin> set [Some ''online'', Some ''offline'', Some ''hybrid''] then {''mode''} else {})"
  by (auto simp: validate_mode_def split: option.splits)

lemma fst_validate_array:
  "fst ` validate_array path m v = (if v = [] then {path} else {})"
  by (simp add: validate_array_def)

lemma set_flagged_Cons:
  "set (map fst (filter snd ((n, b) # xs))) =
     (if b then {n} else {}) \<union> set (map fst (filter snd xs))"
  by auto

lemma fst_Event_validate: "fst ` Event_validate this = set (invalid_paths this)"
proof -
  have "set (map fst (filter snd ([] :: (string \<times> bool) list))) = {}" by simp
  then show ?thesis
    unfolding Event_validate_def invalid_paths_def image_Un fst_validate_string
      fst_validate_mode fst_validate_array set_flagged_Cons
    by (simp only: Un_assoc Un_empty_right)
qed

lemma Event_validate_empty_iff: "Event_validate this = {} \<longleftrightarrow> invalid_paths this = []"
proof -
  have "Event_validate this = {} \<longleftrightarrow> fst ` Event_validate this = {}" by simp
  then show ?thesis unfolding fst_Event_validate by simp
qed






section \<open>The pre-save hook and the unique slug\<close>

text \<open>
  C8. On a save of an Event whose title, date and time are present, as the schema requires:
  the hook sets the slug to the generated slug of the title when the title is modified or
  the slug is absent (undefined or empty) and leaves it alone otherwise, sets the date to
  its normalization when the date is modified and leaves it alone otherwise, sets the time
  to its trimmed form when the time is modified and leaves it alone otherwise, and changes
  no other field.
\<close>

theorem Event_pre_save_normalizes:
  "title this = Some t \<and> date this = Some d \<and> time this = Some tm \<longrightarrow>
     (\<exists>this'. Event_pre_save Date_parse modified this = Inr this'
        \<and> slug this' = (if ''title'' \<in> set modified \<or> falsy (slug this)
                         then Some (generateSlug t) else slug this)
        \<and> date this' = (if ''date'' \<in> set modified
                         then Some (normalizeDate Date_parse d) else date this)
        \<and> time this' = (if ''time'' \<in> set modified
                         then Some (normalizeTime tm) else time this)
        \<and> this' = this\<lparr>slug := slug this', date := date this', time := time this'\<rparr>)"
proof
  assume "title this = Some t \<and> date this = Some d \<and> time this = Some tm"
  then have "Event_pre_save Date_parse modified this =
           Inr (this\<lparr>
             slug := (if ''title'' \<in> set modified \<or> falsy (slug this)
                      then Some (generateSlug t) else slug this),
             date := (if ''date'' \<in> set modified
                      then Some (normalizeDate Date_parse d) else date this),
             time := (if ''time'' \<in> set modified then Some (trim tm) else time this)\<rparr>)"
    by (simp add: Event_pre_save_result)
  then show "\<exists>this'. Event_pre_save Date_parse modified this = Inr this'
        \<and> slug this' = (if ''title'' \<in> set modified \<or> falsy (slug this)
                         then Some (generateSlug t) else slug this)
        \<and> date this' = (if ''date'' \<in> set modified
                         then Some (normalizeDate Date_parse d) else date this)
        \<and> time this' = (if ''time'' \<in> set modified
                         then Some (normalizeTime tm) else time this)
        \<and> this' = this\<lparr>slug := slug this', date := date this', time := time this'\<rparr>"
    by (simp add: normalizeTime_def)
qed

theorem Event_pre_save_normalizes_witness:
  "Event_pre_save parse_nothing [''title'']
     ((sample_payload ''React Conf 2025'')\<lparr>slug := Some ''react-conf-2024''\<rparr>)
   = Inr ((sample_payload ''React Conf 2025'')\<lparr>slug := Some ''react-conf-2025''\<rparr>)
   \<and> Event_pre_save parse_nothing [''time'']
     ((sample_payload ''React Conf 2025'')\<lparr>slug := Some ''react-conf-2024'', time := Some '' 10:00 AM ''\<rparr>)
   = Inr ((sample_payload ''React Conf 2025'')\<lparr>slug := Some ''react-conf-2024'', time := Some ''10:00 AM''\<rparr>)"
proof -
  let ?a = "(sample_payload ''React Conf 2025'')\<lparr>slug := Some ''react-conf-2024''\<rparr>"
  let ?b = "(sample_payload ''React Conf 2025'')\<lparr>slug := Some ''react-conf-2024'', time := Some '' 10:00 AM ''\<rparr>"
  have g: "generateSlug ''React Conf 2025'' = ''react-conf-2025''" by code_simp
  have n: "normalizeTime '' 10:00 AM '' = ''10:00 AM''" by code_simp
  have f: "\<not> falsy (Some ''react-conf-2024'')" by (simp add: falsy_def)
  have "title ?a = Some ''React Conf 2025'' \<and> date ?a = Some ''October 15-16, 2024''
        \<and> time ?a = Some ''9:00 AM - 6:00 PM''"
    by (simp add: sample_payload_def)
  from Event_pre_save_normalizes[of ?a _ _ _ parse_nothing "[''title'']", rule_format, OF this]
  have a: "Event_pre_save parse_nothing [''title''] ?a
             = Inr ((sample_payload ''React Conf 2025'')\<lparr>slug := Some ''react-conf-2025''\<rparr>)"
    by (auto simp: g sample_payload_def)
  have "title ?b = Some ''React Conf 2025'' \<and> date ?b = Some ''October 15-16, 2024''
        \<and> time ?b = Some '' 10:00 AM ''"
    by (simp add: sample_payload_def)
  from Event_pre_save_normalizes[of ?b _ _ _ parse_nothing "[''time'']", rule_format, OF this]
  have b: "Event_pre_save parse_nothing [''time''] ?b
             = Inr ((sample_payload ''React Conf 2025'')\<lparr>slug := Some ''react-conf-2024'', time := Some ''10:00 AM''\<rparr>)"
    by (auto simp: n f sample_payload_def)
  show ?thesis using a b by simp
qed

lemma two_creates_collide:
  assumes "Event_validate (cast_Event p1) = {}" and "Event_validate (cast_Event p2) = {}"
    and "title p1 = Some t1" and "title p2 = Some t2"
    and "generateSlug t1 = generateSlug t2"
    and "\<not> list_ex (\<lambda>d. slug (paths d) = Some (generateSlug t1)) (events st)"
  shows "\<exists>doc st1. Event_create Date_parse now1 st p1 = (Inr doc, st1)
           \<and> slug (paths doc) = Some (generateSlug t1)
           \<and> events st1 = events st @ [doc]
           \<and> Event_create Date_parse now2 st1 p2 = (Inl (DuplicateKeyError ''slug''), st1)"
proof -
  obtain this' where h: "slug this' = Some (generateSlug t1)"
    "Event_create Date_parse now1 st p1 =
       (Inr \<lparr>doc_id = next_id st, createdAt = now1, updatedAt = now1, paths = this'\<rparr>,
        st\<lparr>events := events st
               @ [\<lparr>doc_id = next_id st, createdAt = now1, updatedAt = now1, paths = this'\<rparr>],
            next_id := Suc (next_id st)\<rparr>)"
    using Event_create_fresh[OF assms(1,3,6)] by blast
  let ?doc = "\<lparr>doc_id = next_id st, createdAt = now1, updatedAt = now1, paths = this'\<rparr>"
  let ?st1 = "st\<lparr>events := events st @ [?doc], next_id := Suc (next_id st)\<rparr>"
  have "list_ex (\<lambda>d. slug (paths d) = Some (generateSlug t2)) (events ?st1)"
    using h(1) assms(5) by (simp add: list_ex_iff)
  then have "Event_create Date_parse now2 ?st1 p2 = (Inl (DuplicateKeyError ''slug''), ?st1)"
    by (rule Event_create_taken[OF assms(2,4)])
  then show ?thesis using h by simp
qed

text \<open>
  C3. Two creations of valid events whose titles give the same slug, into a store that does
  not hold this slug yet: the first succeeds and stores the event under the generated slug
  as it is, without a suffix; the second fails with the duplicate key error of the unique
  index on \<open>slug\<close> and leaves the store as the first creation left it.
\<close>

theorem slug_collision:
  "Event_validate (cast_Event p1) = {} \<and> Event_validate (cast_Event p2) = {}
   \<and> title p1 = Some t1 \<and> title p2 = Some t2
   \<and> generateSlug t1 = generateSlug t2
   \<and> \<not> list_ex (\<lambda>d. slug (paths d) = Some (generateSlug t1)) (events st) \<longrightarrow>
     (\<exists>doc st1. Event_create Date_parse now1 st p1 = (Inr doc, st1)
        \<and> slug (paths doc) = Some (generateSlug t1)
        \<and> events st1 = events st @ [doc]
        \<and> Event_create Date_parse now2 st1 p2 = (Inl (DuplicateKeyError ''slug''), st1))"
  using two_creates_collide by blast

theorem slug_collision_witness:
  "Event_validate (cast_Event (sample_payload ''React Conf 2024!'')) = {}
   \<and> Event_validate (cast_Event (sample_payload ''react conf 2024'')) = {}
   \<and> generateSlug ''React Conf 2024!'' = generateSlug ''react conf 2024''
   \<and> (\<exists>doc st1.
         Event_create parse_nothing 1 empty_store (sample_payload ''React Conf 2024!'')
           = (Inr doc, st1)
         \<and> slug (paths doc) = Some ''react-conf-2024''
         \<and> events st1 = [doc]
         \<and> Event_create parse_nothing 2 st1 (sample_payload ''react conf 2024'')
           = (Inl (DuplicateKeyError ''slug''), st1))"
proof -
  have v1: "Event_validate (cast_Event (sample_payload ''React Conf 2024!'')) = {}"
    by (simp add: Event_validate_empty_iff) code_simp
  have v2: "Event_validate (cast_Event (sample_payload ''react conf 2024'')) = {}"
    by (simp add: Event_validate_empty_iff) code_simp
  have g1: "generateSlug ''React Conf 2024!'' = ''react-conf-2024''" by code_simp
  have g2: "generateSlug ''react conf 2024'' = ''react-conf-2024''" by code_simp
  have t1: "title (sample_payload ''React Conf 2024!'') = Some ''React Conf 2024!''"
    and t2: "title (sample_payload ''react conf 2024'') = Some ''react conf 2024''"
    by (simp_all add: sample_payload_def)
  have fresh: "\<not> list_ex (\<lambda>d. slug (paths d) = Some (generateSlug ''React Conf 2024!''))
                 (events empty_store)"
    by (simp add: empty_store_def)
  show ?thesis
    using slug_collision[of "sample_payload ''React Conf 2024!''"
        "sample_payload ''react conf 2024''" "''React Conf 2024!''" "''react conf 2024''"
        empty_store parse_nothing 1 2]
      v1 v2 g1 g2 t1 t2 fresh
    by (simp add: empty_store_def)
qed

text \<open>
  C10. A title without word characters has the empty slug. When such a title passes the
  validation (it is not empty after trimming) and the store holds no empty slug yet, the
  event is stored with the empty slug, and the creation of any second valid event with
  such a title then fails on the unique index, whatever its title is. The title \<open>!!!\<close>
  is one of them: it passes the validation and its slug is empty.
\<close>

theorem empty_slug_collision:
  "(Event_validate (cast_Event p1) = {} \<and> Event_validate (cast_Event p2) = {}
    \<and> title p1 = Some t1 \<and> title p2 = Some t2
    \<and> (\<forall>c \<in> set t1. \<not> is_word c) \<and> (\<forall>c \<in> set t2. \<not> is_word c)
    \<and> \<not> list_ex (\<lambda>d. slug (paths d) = Some []) (events st) \<longrightarrow>
      generateSlug t1 = []
      \<and> (\<exists>doc st1. Event_create Date_parse now1 st p1 = (Inr doc, st1)
            \<and> slug (paths doc) = Some []
            \<and> events st1 = events st @ [doc]
            \<and> Event_create Date_parse now2 st1 p2 = (Inl (DuplicateKeyError ''slug''), st1)))
   \<and> generateSlug ''!!!'' = []
   \<and> Event_validate (cast_Event (sample_payload ''!!!'')) = {}"
proof (intro conjI impI)
  assume a: "Event_validate (cast_Event p1) = {} \<and> Event_validate (cast_Event p2) = {}
    \<and> title p1 = Some t1 \<and> title p2 = Some t2
    \<and> (\<forall>c \<in> set t1. \<not> is_word c) \<and> (\<forall>c \<in> set t2. \<not> is_word c)
    \<and> \<not> list_ex (\<lambda>d. slug (paths d) = Some []) (events st)"
  then have g1: "generateSlug t1 = []" and g2: "generateSlug t2 = []"
    by (simp_all add: generateSlug_no_word)
  show "generateSlug t1 = []" by (rule g1)
  show "\<exists>doc st1. Event_create Date_parse now1 st p1 = (Inr doc, st1)
            \<and> slug (paths doc) = Some []
            \<and> events st1 = events st @ [doc]
            \<and> Event_create Date_parse now2 st1 p2 = (Inl (DuplicateKeyError ''slug''), st1)"
    using two_creates_collide[of p1 p2 t1 t2 st Date_parse now1 now2] a g1 g2 by simp
next
  show "generateSlug ''!!!'' = []" by code_simp
  show "Event_validate (cast_Event (sample_payload ''!!!'')) = {}"
    by (simp add: Event_validate_empty_iff) code_simp
qed

theorem empty_slug_collision_witness:
  "list_all (\<lambda>c. \<not> is_word c) ''!!!'' \<and> list_all (\<lambda>c. \<not> is_word c) ''???''
   \<and> ''!!!'' \<noteq> ''???''
   \<and> (\<exists>doc st1. Event_create parse_nothing 1 empty_store (sample_payload ''!!!'') = (Inr doc, st1)
         \<and> slug (paths doc) = Some []
         \<and> events st1 = [doc]
         \<and> Event_create parse_nothing 2 st1 (sample_payload ''???'')
             = (Inl (DuplicateKeyError ''slug''), st1))"
proof -
  have v1: "Event_validate (cast_Event (sample_payload ''!!!'')) = {}"
    by (simp add: Event_validate_empty_iff) code_simp
  have v2: "Event_validate (cast_Event (sample_payload ''???'')) = {}"
    by (simp add: Event_validate_empty_iff) code_simp
  have w1: "\<forall>c \<in> set ''!!!''. \<not> is_word c" by (simp add: is_word_def)
  have w2: "\<forall>c \<in> set ''???''. \<not> is_word c" by (simp add: is_word_def)
  have t1: "title (sample_payload ''!!!'') = Some ''!!!''"
    and t2: "title (sample_payload ''???'') = Some ''???''"
    by (simp_all add: sample_payload_def)
  have fresh: "\<not> list_ex (\<lambda>d. slug (paths d) = Some []) (events empty_store)"
    by (simp add: empty_store_def)
  have "\<exists>doc st1. Event_create parse_nothing 1 empty_store (sample_payload ''!!!'') = (Inr doc, st1)
         \<and> slug (paths doc) = Some []
         \<and> events st1 = events empty_store @ [doc]
         \<and> Event_create parse_nothing 2 st1 (sample_payload ''???'')
             = (Inl (DuplicateKeyError ''slug''), st1)"
    using empty_slug_collision[of "sample_payload ''!!!''" "sample_payload ''???''"
        "''!!!''" "''???''" empty_store parse_nothing 1 2]
      v1 v2 w1 w2 t1 t2 fresh
    by blast
  then show ?thesis using w1 w2 by (simp add: empty_store_def)
qed

section \<open>Properties of the Booking model\<close>

lemma store_with_event_events:
  "events store_with_event =
     [\<lparr>doc_id = 0, createdAt = 1, updatedAt = 1,
       paths = (sample_payload ''React Conf 2024!'')\<lparr>slug := Some ''react-conf-2024''\<rparr>\<rparr>]"
  by code_simp

lemma store_with_event_rest: "bookings store_with_event = []" "next_id store_with_event = 1"
  by code_simp+

lemma findById_sample: "findById store_with_event 0 \<noteq> None" "findById store_with_event 7 = None"
  by (simp_all add: findById_def store_with_event_events)

lemma ObjectId_7: "ObjectId_toString 7 = ''000000000000000000000007''"
  by code_simp

lemma cast_sample_email:
  "cast_Booking \<lparr>eventId = Some i, email = Some ''USER@Example.com''\<rparr>
     = \<lparr>eventId = Some i, email = Some ''user@example.com''\<rparr>"
proof -
  have "trim (toLowerCase ''USER@Example.com'') = ''user@example.com''" by code_simp
  then show ?thesis by (simp add: cast_Booking_def)
qed

lemma sample_email_valid:
  "Booking_validate \<lparr>eventId = Some i, email = Some ''user@example.com''\<rparr> = {}"
proof -
  have "regex_test emailRegex ''user@example.com''" by code_simp
  then show ?thesis by (simp add: Booking_validate_def)
qed

lemma cast_nobody:
  "cast_Booking \<lparr>eventId = Some i, email = Some ''nobody''\<rparr>
     = \<lparr>eventId = Some i, email = Some ''nobody''\<rparr>"
proof -
  have "trim (toLowerCase ''nobody'') = ''nobody''" by code_simp
  then show ?thesis by (simp add: cast_Booking_def)
qed

lemma nobody_invalid:
  "Booking_validate \<lparr>eventId = Some i, email = Some ''nobody''\<rparr>
     = {(''email'', ''Please provide a valid email address'')}"
proof -
  have "\<not> regex_test emailRegex ''nobody''" by code_simp
  then show ?thesis by (simp add: Booking_validate_def)
qed

lemma Booking_create_invalid:
  "Booking_validate (cast_Booking p) \<noteq> {} \<Longrightarrow>
   Booking_create now st p = (Inl (ValidationError (Booking_validate (cast_Booking p))), st)"
  by (simp add: Booking_create_def Let_def)

lemma Booking_create_missing:
  assumes "Booking_validate (cast_Booking p) = {}" and "eventId p = Some i"
    and "findById st i = None"
  shows "Booking_create now st p =
           (Inl (Error (''Event with ID '' @ ObjectId_toString i @ '' does not exist'')), st)"
  using assms by (simp add: Booking_create_def Booking_pre_save_def cast_Booking_def Let_def)

lemma Booking_create_existing:
  assumes "Booking_validate (cast_Booking p) = {}" and "eventId p = Some i"
    and "findById st i \<noteq> None"
  shows "Booking_create now st p =
           (Inr \<lparr>doc_id = next_id st, createdAt = now, updatedAt = now, paths = cast_Booking p\<rparr>,
            st\<lparr>bookings := bookings st
                   @ [\<lparr>doc_id = next_id st, createdAt = now, updatedAt = now,
                       paths = cast_Booking p\<rparr>],
                next_id := Suc (next_id st)\<rparr>)"
  using assms
  by (auto simp: Booking_create_def Booking_pre_save_def cast_Booking_def Let_def)



lemma Booking_validate_eventId:
  "eventId this = None \<Longrightarrow> Booking_validate this \<noteq> {}"
  by (simp add: Booking_validate_def)


text \<open>
  C2, as the claim states it, fails on a payload whose email does not pass the validation,
  because Mongoose validates before it runs the pre-save hook: with no event 7 in the
  store the create fails with the \<open>ValidationError\<close> of the email and not with the error
  of the missing event, and with event 0 in the store the create persists no booking.
\<close>

theorem Booking_reference_counterexample:
  "findById empty_store 7 = None
   \<and> Booking_create 2 empty_store \<lparr>eventId = Some 7, email = Some ''nobody''\<rparr>
       = (Inl (ValidationError {(''email'', ''Please provide a valid email address'')}),
          empty_store)
   \<and> findById store_with_event 0 \<noteq> None
   \<and> bookings (snd (Booking_create 2 store_with_event
         \<lparr>eventId = Some 0, email = Some ''nobody''\<rparr>)) = []"
proof -
  have "findById empty_store 7 = None"
    by (simp add: findById_def empty_store_def)
  moreover have "Booking_create 2 st \<lparr>eventId = Some i, email = Some ''nobody''\<rparr>
       = (Inl (ValidationError {(''email'', ''Please provide a valid email address'')}), st)"
    for st i
    using Booking_create_invalid[of "\<lparr>eventId = Some i, email = Some ''nobody''\<rparr>" 2 st]
    by (simp add: cast_nobody nobody_invalid)
  ultimately show ?thesis
    by (simp add: findById_sample store_with_event_rest)
qed

text \<open>
  C2, amended. A Booking create whose \<open>eventId\<close> refers to no Event of the store fails and
  persists nothing. A payload that does not pass the validation, an absent \<open>eventId\<close>
  among them, fails with the \<open>ValidationError\<close> of the validation, which runs before the
  pre-save hook, whether the Event exists or not. When the payload passes the validation,
  a missing Event makes the create fail with the error of the hook that says the event
  does not exist, and with the Event in the store the Booking is persisted.
\<close>

theorem Booking_create_reference_check:
  "((\<forall>i. eventId p = Some i \<longrightarrow> findById st i = None) \<longrightarrow>
      (\<exists>e. Booking_create now st p = (Inl e, st)))
   \<and> (Booking_validate (cast_Booking p) \<noteq> {} \<longrightarrow>
        Booking_create now st p =
          (Inl (ValidationError (Booking_validate (cast_Booking p))), st))
   \<and> (eventId p = None \<longrightarrow> Booking_validate (cast_Booking p) \<noteq> {})
   \<and> (Booking_validate (cast_Booking p) = {} \<and> eventId p = Some i \<and> findById st i = None \<longrightarrow>
        Booking_create now st p =
          (Inl (Error (''Event with ID '' @ ObjectId_toString i @ '' does not exist'')), st))
   \<and> (Booking_validate (cast_Booking p) = {} \<and> eventId p = Some i \<and> findById st i \<noteq> None \<longrightarrow>
        (\<exists>doc. Booking_create now st p =
                 (Inr doc, st\<lparr>bookings := bookings st @ [doc], next_id := Suc (next_id st)\<rparr>)
           \<and> paths doc = cast_Booking p))"
proof (intro conjI impI)
  assume a: "\<forall>i. eventId p = Some i \<longrightarrow> findById st i = None"
  show "\<exists>e. Booking_create now st p = (Inl e, st)"
  proof (cases "Booking_validate (cast_Booking p) = {}")
    case False
    then show ?thesis using Booking_create_invalid by blast
  next
    case True
    have "eventId (cast_Booking p) \<noteq> None"
      using True Booking_validate_eventId by blast
    then obtain i where i: "eventId p = Some i" by (auto simp: cast_Booking_def)
    then have "findById st i = None" using a by blast
    then show ?thesis using True i Booking_create_missing by blast
  qed
next
  assume "Booking_validate (cast_Booking p) \<noteq> {}"
  then show "Booking_create now st p =
          (Inl (ValidationError (Booking_validate (cast_Booking p))), st)"
    by (rule Booking_create_invalid)
next
  assume "eventId p = None"
  then have "eventId (cast_Booking p) = None" by (simp add: cast_Booking_def)
  then show "Booking_validate (cast_Booking p) \<noteq> {}" by (rule Booking_validate_eventId)
next
  assume "Booking_validate (cast_Booking p) = {} \<and> eventId p = Some i \<and> findById st i = None"
  then show "Booking_create now st p =
          (Inl (Error (''Event with ID '' @ ObjectId_toString i @ '' does not exist'')), st)"
    using Booking_create_missing by blast
next
  assume "Booking_validate (cast_Booking p) = {} \<and> eventId p = Some i \<and> findById st i \<noteq> None"
  then have "Booking_create now st p =
           (Inr \<lparr>doc_id = next_id st, createdAt = now, updatedAt = now, paths = cast_Booking p\<rparr>,
            st\<lparr>bookings := bookings st
                   @ [\<lparr>doc_id = next_id st, createdAt = now, updatedAt = now,
                       paths = cast_Booking p\<rparr>],
                next_id := Suc (next_id st)\<rparr>)"
    using Booking_create_existing by blast
  then show "\<exists>doc. Booking_create now st p =
                 (Inr doc, st\<lparr>bookings := bookings st @ [doc], next_id := Suc (next_id st)\<rparr>)
           \<and> paths doc = cast_Booking p"
    by simp
qed

theorem Booking_create_reference_check_witness:
  "Booking_create 2 store_with_event \<lparr>eventId = Some 7, email = Some ''USER@Example.com''\<rparr>
     = (Inl (Error ''Event with ID 000000000000000000000007 does not exist''), store_with_event)
   \<and> (\<exists>doc. Booking_create 2 store_with_event
                \<lparr>eventId = Some 0, email = Some ''USER@Example.com''\<rparr>
              = (Inr doc, store_with_event\<lparr>bookings := [doc], next_id := 2\<rparr>)
         \<and> paths doc = \<lparr>eventId = Some 0, email = Some ''user@example.com''\<rparr>)
   \<and> Booking_create 2 store_with_event \<lparr>eventId = Some 7, email = Some ''nobody''\<rparr>
     = (Inl (ValidationError {(''email'', ''Please provide a valid email address'')}),
        store_with_event)
   \<and> Booking_create 2 store_with_event \<lparr>eventId = None, email = Some ''nobody''\<rparr>
     = (Inl (ValidationError {(''eventId'', ''Event ID is required''),
                               (''email'', ''Please provide a valid email address'')}),
        store_with_event)"
proof -
  let ?p = "\<lambda>i. \<lparr>eventId = Some i, email = Some ''USER@Example.com''\<rparr>"
  let ?q = "\<lparr>eventId = Some 7, email = Some ''nobody''\<rparr>"
  let ?r = "\<lparr>eventId = None, email = Some ''nobody''\<rparr>"
  have v: "Booking_validate (cast_Booking (?p i)) = {}" for i
    by (simp add: cast_sample_email sample_email_valid)
  have n: "\<not> regex_test emailRegex ''nobody''" by code_simp
  have l: "trim (toLowerCase ''nobody'') = ''nobody''" by code_simp
  have q: "Booking_validate (cast_Booking ?q)
             = {(''email'', ''Please provide a valid email address'')}"
    by (simp add: cast_nobody nobody_invalid)
  have r: "Booking_validate (cast_Booking ?r)
             = {(''eventId'', ''Event ID is required''),
                (''email'', ''Please provide a valid email address'')}"
    using n by (auto simp: cast_Booking_def Booking_validate_def l)
  note inst = Booking_create_reference_check[of "?p 7" store_with_event 2 7]
    Booking_create_reference_check[of "?p 0" store_with_event 2 0]
  have a: "Booking_create 2 store_with_event (?p 7)
     = (Inl (Error ''Event with ID 000000000000000000000007 does not exist''), store_with_event)"
    using inst(1) v findById_sample by (simp add: ObjectId_7)
  have b: "\<exists>doc. Booking_create 2 store_with_event (?p 0)
              = (Inr doc, store_with_event\<lparr>bookings := [doc], next_id := 2\<rparr>)
         \<and> paths doc = \<lparr>eventId = Some 0, email = Some ''user@example.com''\<rparr>"
    using inst(2) v findById_sample
    by (simp add: cast_sample_email store_with_event_rest numeral_2_eq_2)
  have c: "Booking_create 2 store_with_event ?q
     = (Inl (ValidationError {(''email'', ''Please provide a valid email address'')}),
        store_with_event)"
    using Booking_create_reference_check[of ?q store_with_event 2] q by simp
  have d: "Booking_create 2 store_with_event ?r
     = (Inl (ValidationError {(''eventId'', ''Event ID is required''),
                               (''email'', ''Please provide a valid email address'')}),
        store_with_event)"
    using Booking_create_reference_check[of ?r store_with_event 2] r by simp
  show ?thesis using a b c d by blast
qed



section \<open>Properties of the route handlers\<close>

lemma find_unique:
  "distinct (map f xs) \<Longrightarrow> d \<in> set xs \<Longrightarrow> find (\<lambda>x. f x = f d) xs = Some d"
  by (induction xs) auto

lemma store_with_empty_slug_events:
  "map (\<lambda>d. slug (paths d)) (events store_with_empty_slug) = [Some []]"
  by code_simp

text \<open>
  C4, as the claim states it, fails on a blank query. The store holds an event with the
  empty slug (its title is \<open>!!!\<close>), the query of one space is this slug after trimming and
  lowercasing, and the answer is 400, not 200 with the event. On the empty store, where no
  event matches, the answer to the same query is 400 as well, not 404.
\<close>

theorem GET_event_by_slug_counterexample:
  "map (\<lambda>d. slug (paths d)) (events store_with_empty_slug) = [Some (toLowerCase (trim '' ''))]
   \<and> GET_event_by_slug (Inr store_with_empty_slug) '' ''
       = Response 400 (Message ''Invalid or missing slug parameter'')
   \<and> GET_event_by_slug (Inr empty_store) '' ''
       = Response 400 (Message ''Invalid or missing slug parameter'')"
proof -
  have t: "trim '' '' = []" by code_simp
  have l: "toLowerCase [] = []" by (simp add: toLowerCase_def)
  show ?thesis
    by (simp add: GET_event_by_slug_def t l store_with_empty_slug_events)
qed

text \<open>
  C4, amended. For a query that is not blank after trimming: when an event of the store,
  whose slugs are distinct, has the trimmed and lowercased query as its slug, the answer
  is 200 with this event; when no event has it, the answer is the 404 response. A blank
  query is answered with 400. The query \<open>REACT-CONF-2024\<close> with a trailing space finds
  the event stored under \<open>react-conf-2024\<close>.
\<close>

theorem GET_event_by_slug_match:
  "(trim q \<noteq> [] \<and> d \<in> set (events st)
      \<and> distinct (map (\<lambda>d. slug (paths d)) (events st))
      \<and> slug (paths d) = Some (toLowerCase (trim q)) \<longrightarrow>
        GET_event_by_slug (Inr st) q
          = Response 200 (MessageEvent ''Event fetched successfully'' d))
   \<and> (trim q \<noteq> [] \<and> (\<forall>d \<in> set (events st). slug (paths d) \<noteq> Some (toLowerCase (trim q))) \<longrightarrow>
        GET_event_by_slug (Inr st) q
          = Response 404 (Message (''Event with slug: '' @ toLowerCase (trim q) @ '' not found'')))
   \<and> (trim q = [] \<longrightarrow>
        GET_event_by_slug (Inr st) q
          = Response 400 (Message ''Invalid or missing slug parameter''))
   \<and> GET_event_by_slug (Inr store_with_event) ''REACT-CONF-2024 ''
        = Response 200 (MessageEvent ''Event fetched successfully''
            \<lparr>doc_id = 0, createdAt = 1, updatedAt = 1,
             paths = (sample_payload ''React Conf 2024!'')\<lparr>slug := Some ''react-conf-2024''\<rparr>\<rparr>)"
proof (intro conjI impI)
  assume a: "trim q \<noteq> [] \<and> d \<in> set (events st)
      \<and> distinct (map (\<lambda>d. slug (paths d)) (events st))
      \<and> slug (paths d) = Some (toLowerCase (trim q))"
  then have q: "q \<noteq> []" by (auto simp: trim_def)
  have "find (\<lambda>x. slug (paths x) = slug (paths d)) (events st) = Some d"
    using a by (intro find_unique) simp_all
  then have "findOne_slug st (toLowerCase (trim q)) = Some d"
    using a by (simp add: findOne_slug_def)
  then show "GET_event_by_slug (Inr st) q
          = Response 200 (MessageEvent ''Event fetched successfully'' d)"
    using a q by (simp add: GET_event_by_slug_def)
next
  assume a: "trim q \<noteq> [] \<and> (\<forall>d \<in> set (events st). slug (paths d) \<noteq> Some (toLowerCase (trim q)))"
  then have q: "q \<noteq> []" by (auto simp: trim_def)
  have "findOne_slug st (toLowerCase (trim q)) = None"
    using a by (simp add: findOne_slug_def find_None_iff)
  then show "GET_event_by_slug (Inr st) q
          = Response 404 (Message (''Event with slug: '' @ toLowerCase (trim q) @ '' not found''))"
    using a q by (simp add: GET_event_by_slug_def)
next
  assume "trim q = []"
  then show "GET_event_by_slug (Inr st) q
          = Response 400 (Message ''Invalid or missing slug parameter'')"
    by (simp add: GET_event_by_slug_def)
next
  have t: "trim ''REACT-CONF-2024 '' = ''REACT-CONF-2024''" by code_simp
  have l: "toLowerCase ''REACT-CONF-2024'' = ''react-conf-2024''" by code_simp
  show "GET_event_by_slug (Inr store_with_event) ''REACT-CONF-2024 ''
        = Response 200 (MessageEvent ''Event fetched successfully''
            \<lparr>doc_id = 0, createdAt = 1, updatedAt = 1,
             paths = (sample_payload ''React Conf 2024!'')\<lparr>slug := Some ''react-conf-2024''\<rparr>\<rparr>)"
    by (simp add: GET_event_by_slug_def t l findOne_slug_def store_with_event_events)
qed

theorem GET_event_by_slug_match_witness:
  "trim ''REACT-CONF-2024 '' \<noteq> []
   \<and> distinct (map (\<lambda>d. slug (paths d)) (events store_with_event))
   \<and> map (\<lambda>d. slug (paths d)) (events store_with_event)
       = [Some (toLowerCase (trim ''REACT-CONF-2024 ''))]
   \<and> status (GET_event_by_slug (Inr store_with_event) ''REACT-CONF-2024 '') = 200
   \<and> GET_event_by_slug (Inr store_with_event) ''pycon-2024''
       = Response 404 (Message ''Event with slug: pycon-2024 not found'')
   \<and> status (GET_event_by_slug (Inr store_with_event) ''  '') = 400"
proof -
  let ?d = "\<lparr>doc_id = 0, createdAt = 1, updatedAt = 1,
             paths = (sample_payload ''React Conf 2024!'')\<lparr>slug := Some ''react-conf-2024''\<rparr>\<rparr>"
  have t: "trim ''REACT-CONF-2024 '' = ''REACT-CONF-2024''" by code_simp
  have l: "toLowerCase ''REACT-CONF-2024'' = ''react-conf-2024''" by code_simp
  have t2: "trim ''pycon-2024'' = ''pycon-2024''" by code_simp
  have l2: "toLowerCase ''pycon-2024'' = ''pycon-2024''" by code_simp
  have t3: "trim ''  '' = []" by code_simp
  show ?thesis
    using GET_event_by_slug_match[of "''REACT-CONF-2024 ''" ?d store_with_event]
      GET_event_by_slug_match[of "''pycon-2024''" ?d store_with_event]
      GET_event_by_slug_match[of "''  ''" ?d store_with_event]
    by (simp add: t l t2 l2 t3 store_with_event_events)
qed

lemma find_sorted_desc_sorted:
  "sorted_wrt (\<lambda>a b. createdAt b \<le> createdAt a) (find_sorted_desc st)"
proof -
  have "sorted (map createdAt (sort_key createdAt (events st)))" by (rule sorted_sort_key)
  then have "sorted_wrt (\<lambda>a b. createdAt a \<le> createdAt b) (sort_key createdAt (events st))"
    by (simp add: sorted_map)
  then show ?thesis by (simp add: find_sorted_desc_def sorted_wrt_rev)
qed

lemma find_sorted_desc_mset: "mset (find_sorted_desc st) = mset (events st)"
  by (simp add: find_sorted_desc_def)

text \<open>
  C9. \<open>GET /events\<close> answers 200 with all stored events, ordered by creation time,
  descending. After three creations in sequence into the empty store, at increasing times,
  the listing is the third event, the second, the first.
\<close>

theorem GET_events_newest_first:
  "(\<exists>es. GET_events (Inr st) = Response 200 (MessageEvents ''Event fetched successfully.'' es)
      \<and> mset es = mset (events st)
      \<and> sorted_wrt (\<lambda>a b. createdAt b \<le> createdAt a) es)
   \<and> (now1 < now2 \<and> now2 < now3
       \<and> Event_create Date_parse now1 empty_store p1 = (Inr e1, st1)
       \<and> Event_create Date_parse now2 st1 p2 = (Inr e2, st2)
       \<and> Event_create Date_parse now3 st2 p3 = (Inr e3, st3) \<longrightarrow>
         GET_events (Inr st3)
           = Response 200 (MessageEvents ''Event fetched successfully.'' [e3, e2, e1]))"
proof (intro conjI impI)
  show "\<exists>es. GET_events (Inr st) = Response 200 (MessageEvents ''Event fetched successfully.'' es)
      \<and> mset es = mset (events st)
      \<and> sorted_wrt (\<lambda>a b. createdAt b \<le> createdAt a) es"
    using find_sorted_desc_sorted find_sorted_desc_mset by (simp add: GET_events_def)
next
  assume a: "now1 < now2 \<and> now2 < now3
       \<and> Event_create Date_parse now1 empty_store p1 = (Inr e1, st1)
       \<and> Event_create Date_parse now2 st1 p2 = (Inr e2, st2)
       \<and> Event_create Date_parse now3 st2 p3 = (Inr e3, st3)"
  have 1: "createdAt e1 = now1" "events st1 = events empty_store @ [e1]"
    using a Event_create_Inr[of Date_parse now1 empty_store p1 e1 st1] by simp_all
  have 2: "createdAt e2 = now2" "events st2 = events st1 @ [e2]"
    using a Event_create_Inr[of Date_parse now2 st1 p2 e2 st2] by simp_all
  have 3: "createdAt e3 = now3" "events st3 = events st2 @ [e3]"
    using a Event_create_Inr[of Date_parse now3 st2 p3 e3 st3] by simp_all
  have ev: "events st3 = [e1, e2, e3]"
    using 1 2 3 by (simp add: empty_store_def)
  have "sorted (map createdAt [e1, e2, e3])" using a 1 2 3 by simp
  then have "sort_key createdAt [e1, e2, e3] = [e1, e2, e3]"
    by (rule sort_key_id_if_sorted)
  then show "GET_events (Inr st3)
           = Response 200 (MessageEvents ''Event fetched successfully.'' [e3, e2, e1])"
    by (simp add: GET_events_def find_sorted_desc_def ev)
qed

theorem GET_events_newest_first_witness:
  "(1::nat) < 2 \<and> (2::nat) < 3
   \<and> (\<exists>e1 e2 e3 st1 st2 st3.
         Event_create parse_nothing 1 empty_store (sample_payload ''React Conf 2024'')
           = (Inr e1, st1)
         \<and> Event_create parse_nothing 2 st1 (sample_payload ''Google I/O 2024'') = (Inr e2, st2)
         \<and> Event_create parse_nothing 3 st2 (sample_payload ''AWS re:Invent 2024'')
             = (Inr e3, st3)
         \<and> map (\<lambda>d. slug (paths d)) [e3, e2, e1]
             = [Some ''aws-reinvent-2024'', Some ''google-io-2024'', Some ''react-conf-2024'']
         \<and> GET_events (Inr st3)
             = Response 200 (MessageEvents ''Event fetched successfully.'' [e3, e2, e1]))"
proof -
  let ?p1 = "sample_payload ''React Conf 2024''"
  let ?p2 = "sample_payload ''Google I/O 2024''"
  let ?p3 = "sample_payload ''AWS re:Invent 2024''"
  have v: "Event_validate (cast_Event ?p1) = {}" "Event_validate (cast_Event ?p2) = {}"
    "Event_validate (cast_Event ?p3) = {}"
    by (simp_all add: Event_validate_empty_iff) code_simp+
  have g: "generateSlug ''React Conf 2024'' = ''react-conf-2024''"
    "generateSlug ''Google I/O 2024'' = ''google-io-2024''"
    "generateSlug ''AWS re:Invent 2024'' = ''aws-reinvent-2024''"
    by code_simp+
  have t: "title ?p1 = Some ''React Conf 2024''" "title ?p2 = Some ''Google I/O 2024''"
    "title ?p3 = Some ''AWS re:Invent 2024''"
    by (simp_all add: sample_payload_def)
  obtain e1 st1 where c1: "Event_create parse_nothing 1 empty_store ?p1 = (Inr e1, st1)"
    and s1: "slug (paths e1) = Some ''react-conf-2024''"
    using Event_create_fresh[OF v(1) t(1), of empty_store parse_nothing 1]
    by (auto simp: empty_store_def g)
  have ev1: "events st1 = [e1]"
    using Event_create_Inr[OF c1] by (simp add: empty_store_def)
  obtain e2 st2 where c2: "Event_create parse_nothing 2 st1 ?p2 = (Inr e2, st2)"
    and s2: "slug (paths e2) = Some ''google-io-2024''"
    using Event_create_fresh[OF v(2) t(2), of st1 parse_nothing 2]
    by (auto simp: ev1 s1 g)
  have ev2: "events st2 = [e1, e2]"
    using Event_create_Inr[OF c2] by (simp add: ev1)
  obtain e3 st3 where c3: "Event_create parse_nothing 3 st2 ?p3 = (Inr e3, st3)"
    and s3: "slug (paths e3) = Some ''aws-reinvent-2024''"
    using Event_create_fresh[OF v(3) t(3), of st2 parse_nothing 3]
    by (auto simp: ev2 s1 s2 g)
  have "GET_events (Inr st3)
          = Response 200 (MessageEvents ''Event fetched successfully.'' [e3, e2, e1])"
    using GET_events_newest_first[of st3 1 2 3 parse_nothing ?p1 e1 st1 ?p2 e2 st2 ?p3 e3 st3]
      c1 c2 c3
    by simp
  then show ?thesis using c1 c2 c3 s1 s2 s3 by auto
qed

section \<open>The output of the date normalizer\<close>

text \<open>The computed year is the year of ECMAScript: the last one that starts on or before the
  day.\<close>

lemma div_qr: "0 \<le> r \<Longrightarrow> r < m \<Longrightarrow> (m * q + r) div m = (q::int)"
  by (simp add: div_pos_pos_trivial)

lemma DayFromYear_1601:
  "DayFromYear (1601 + k) = 365 * k + k div 4 - k div 100 + k div 400 - 134774"
proof -
  have a: "(1601 + k - 1969) div 4 = k div 4 - 92"
  proof -
    show ?thesis using div_mult_self2[of 4 k "-92"] by simp
  qed
  have b: "(1601 + k - 1901) div 100 = k div 100 - 3"
  proof -
    show ?thesis using div_mult_self2[of 100 k "-3"] by simp
  qed
  have c: "(1601 + k - 1601) div 400 = k div 400" by simp
  show ?thesis unfolding DayFromYear_def a b c by simp
qed

lemma cycle_days:
  assumes "0 \<le> q100" "q100 \<le> 3" "0 \<le> q4" "q4 \<le> 24" "0 \<le> q1" "q1 \<le> 3"
  shows "DayFromYear (1601 + (400 * q400 + 100 * q100 + 4 * q4 + q1)) =
           146097 * q400 + 36524 * q100 + 1461 * q4 + 365 * q1 - 134774"
proof -
  let ?k = "400 * q400 + 100 * q100 + 4 * q4 + q1"
  have "?k = 4 * (100 * q400 + 25 * q100 + q4) + q1" by simp
  then have a: "?k div 4 = 100 * q400 + 25 * q100 + q4"
    using div_qr[of q1 4 "100 * q400 + 25 * q100 + q4"] assms by simp
  have "?k = 100 * (4 * q400 + q100) + (4 * q4 + q1)" by simp
  then have b: "?k div 100 = 4 * q400 + q100"
    using div_qr[of "4 * q4 + q1" 100 "4 * q400 + q100"] assms by simp
  have "?k = 400 * q400 + (100 * q100 + 4 * q4 + q1)" by simp
  then have c: "?k div 400 = q400"
    using div_qr[of "100 * q100 + 4 * q4 + q1" 400 q400] assms by simp
  show ?thesis unfolding DayFromYear_1601 a b c by simp
qed


lemma YearFromDay_spec:
  "DayFromYear (YearFromDay d) \<le> d \<and> d < DayFromYear (YearFromDay d + 1)"
proof -
  define n where "n = d + 134774"
  define q400 where "q400 = n div 146097"
  define r400 where "r400 = n mod 146097"
  define e where "e = r400 div 36524"
  define q100 where "q100 = min 3 e"
  define r100 where "r100 = r400 - q100 * 36524"
  define q4 where "q4 = r100 div 1461"
  define r4 where "r4 = r100 mod 1461"
  define f where "f = r4 div 365"
  define q1 where "q1 = min 3 f"
  have y: "YearFromDay d = 1601 + (400 * q400 + 100 * q100 + 4 * q4 + q1)"
    unfolding YearFromDay_def Let_def q1_def f_def r4_def q4_def r100_def q100_def e_def
      r400_def q400_def n_def
    by simp
  have n: "n = 146097 * q400 + r400" and r400: "0 \<le> r400" "r400 < 146097"
    unfolding q400_def r400_def by simp_all
  have e: "r400 = 36524 * e + r400 mod 36524" "0 \<le> r400 mod 36524" "r400 mod 36524 < 36524"
    unfolding e_def by simp_all
  have e0: "0 \<le> e" "e \<le> 4" using e r400 by linarith+
  have q100: "0 \<le> q100" "q100 \<le> 3" using e0 unfolding q100_def by simp_all
  have r100: "0 \<le> r100" "r100 \<le> 36524" "q100 < 3 \<longrightarrow> r100 < 36524"
    using e e0 r400 unfolding r100_def q100_def min_def by (simp_all; linarith)+
  have q4r: "r100 = 1461 * q4 + r4" "0 \<le> r4" "r4 < 1461"
    unfolding q4_def r4_def by simp_all
  have q4: "0 \<le> q4" "q4 \<le> 24" using q4r r100 by linarith+
  have f: "r4 = 365 * f + r4 mod 365" "0 \<le> r4 mod 365" "r4 mod 365 < 365"
    unfolding f_def by simp_all
  have f0: "0 \<le> f" "f \<le> 4" using f q4r by linarith+
  have q1: "0 \<le> q1" "q1 \<le> 3" using f0 unfolding q1_def by simp_all
  have q1r: "365 * q1 \<le> r4" "q1 < 3 \<longrightarrow> r4 < 365 * (q1 + 1)"
    using f f0 unfolding q1_def min_def by (simp_all; linarith)+
  have d: "d = 146097 * q400 + 36524 * q100 + 1461 * q4 + r4 - 134774"
    using n q4r unfolding r100_def n_def by linarith
  have lo: "DayFromYear (YearFromDay d) =
              146097 * q400 + 36524 * q100 + 1461 * q4 + 365 * q1 - 134774"
    unfolding y using q100 q4 q1 by (rule cycle_days)
  have hi: "d < DayFromYear (YearFromDay d + 1)"
  proof -
    consider "q1 < 3" | "q1 = 3" "q4 < 24" | "q1 = 3" "q4 = 24" "q100 < 3"
      | "q1 = 3" "q4 = 24" "q100 = 3"
      using q1 q4 q100 by linarith
    then show ?thesis
    proof cases
      case 1
      have "YearFromDay d + 1 = 1601 + (400 * q400 + 100 * q100 + 4 * q4 + (q1 + 1))"
        unfolding y by simp
      moreover have "DayFromYear (1601 + (400 * q400 + 100 * q100 + 4 * q4 + (q1 + 1))) =
           146097 * q400 + 36524 * q100 + 1461 * q4 + 365 * (q1 + 1) - 134774"
        using q100 q4 q1 1 by (intro cycle_days) simp_all
      ultimately show ?thesis using d q1r 1 by simp
    next
      case 2
      have "YearFromDay d + 1 = 1601 + (400 * q400 + 100 * q100 + 4 * (q4 + 1) + 0)"
        unfolding y using 2 by simp
      moreover have "DayFromYear (1601 + (400 * q400 + 100 * q100 + 4 * (q4 + 1) + 0)) =
           146097 * q400 + 36524 * q100 + 1461 * (q4 + 1) + 365 * 0 - 134774"
        using q100 q4 2 by (intro cycle_days) simp_all
      ultimately show ?thesis using d q4r by simp
    next
      case 3
      have "YearFromDay d + 1 = 1601 + (400 * q400 + 100 * (q100 + 1) + 4 * 0 + 0)"
        unfolding y using 3 by simp
      moreover have "DayFromYear (1601 + (400 * q400 + 100 * (q100 + 1) + 4 * 0 + 0)) =
           146097 * q400 + 36524 * (q100 + 1) + 1461 * 0 + 365 * 0 - 134774"
        using q100 3 by (intro cycle_days) simp_all
      ultimately show ?thesis using d q4r r100 3 by simp
    next
      case 4
      have "YearFromDay d + 1 = 1601 + (400 * (q400 + 1) + 100 * 0 + 4 * 0 + 0)"
        unfolding y using 4 by simp
      moreover have "DayFromYear (1601 + (400 * (q400 + 1) + 100 * 0 + 4 * 0 + 0)) =
           146097 * (q400 + 1) + 36524 * 0 + 1461 * 0 + 365 * 0 - 134774"
        by (intro cycle_days) simp_all
      ultimately show ?thesis using n r400 unfolding n_def by simp
    qed
  qed
  show ?thesis using lo hi d q1r by simp
qed

lemma YearFromTime_spec:
  "DayFromYear (YearFromTime t) \<le> Day t \<and> Day t < DayFromYear (YearFromTime t + 1)"
  unfolding YearFromTime_def by (rule YearFromDay_spec)

lemma digit_char_digit: "d < 10 \<Longrightarrow> digit_char d \<in> set ''0123456789''"
  unfolding digit_char_def by (intro nth_mem) simp

lemma pad_digits: "c \<in> set (pad w n) \<Longrightarrow> c \<in> set ''0123456789''"
proof (induction w arbitrary: n)
  case 0
  then show ?case by simp
next
  case (Suc w)
  from Suc.prems have "c \<in> set (pad w (n div 10)) \<or> c = digit_char (n mod 10)"
    by auto
  then show ?case
  proof
    assume "c \<in> set (pad w (n div 10))"
    then show ?thesis by (rule Suc.IH)
  next
    assume "c = digit_char (n mod 10)"
    then show ?thesis using digit_char_digit[of "n mod 10"] by simp
  qed
qed

lemma pad_not_T: "c \<in> set (pad w n) \<Longrightarrow> c \<noteq> CHR ''T''"
proof -
  assume "c \<in> set (pad w n)"
  then have "c \<in> set ''0123456789''" by (rule pad_digits)
  then show ?thesis by auto
qed


lemma split_first_T:
  assumes "\<forall>c \<in> set xs. c \<noteq> CHR ''T''"
  shows "split_first CHR ''T'' (xs @ ''T'' @ ys) = xs"
  using assms by (simp add: split_first_def takeWhile_append2)

lemma pad_numeral:
  "pad (numeral k) n = pad (pred_numeral k) (n div 10) @ [digit_char (n mod 10)]"
proof -
  have "pad (Suc (pred_numeral k)) n = pad (pred_numeral k) (n div 10) @ [digit_char (n mod 10)]"
    by (rule pad.simps)
  then show ?thesis by (simp only: numeral_eq_Suc[symmetric])
qed

lemma year_part_not_T:
  "c \<in> set (if 0 \<le> y \<and> y \<le> 9999 then pad 4 (nat y)
       else (if y < 0 then CHR ''-'' else CHR ''+'') # pad 6 (nat \<bar>y\<bar>)) \<Longrightarrow> c \<noteq> CHR ''T''"
  by (cases "0 \<le> y \<and> y \<le> 9999"; cases "y < 0") (auto dest: pad_not_T)

lemma date_part_not_T:
  assumes "c \<in> set (yy @ ''-'' @ pad 2 m @ ''-'' @ pad 2 d)"
    and "\<And>c. c \<in> set yy \<Longrightarrow> c \<noteq> CHR ''T''"
  shows "c \<noteq> CHR ''T''"
proof -
  from assms(1) have "c \<in> set yy \<or> c = CHR ''-'' \<or> c \<in> set (pad 2 m) \<or> c \<in> set (pad 2 d)"
    by auto
  then show ?thesis using assms(2) pad_not_T by auto
qed

lemma split_first_toISOString:
  "split_first CHR ''T'' (toISOString t) =
      (if 0 \<le> YearFromTime t \<and> YearFromTime t \<le> 9999 then pad 4 (nat (YearFromTime t))
       else (if YearFromTime t < 0 then CHR ''-'' else CHR ''+'') # pad 6 (nat \<bar>YearFromTime t\<bar>))
      @ ''-'' @ pad 2 (nat (MonthFromTime t + 1))
      @ ''-'' @ pad 2 (nat (DateFromTime t))"
proof -
  let ?y = "YearFromTime t"
  let ?yy = "(if 0 \<le> ?y \<and> ?y \<le> 9999 then pad 4 (nat ?y)
       else (if ?y < 0 then CHR ''-'' else CHR ''+'') # pad 6 (nat \<bar>?y\<bar>))"
  let ?d = "?yy @ ''-'' @ pad 2 (nat (MonthFromTime t + 1))
      @ ''-'' @ pad 2 (nat (DateFromTime t))"
  let ?r = "pad 2 (nat (HourFromTime t))
      @ '':'' @ pad 2 (nat (MinFromTime t))
      @ '':'' @ pad 2 (nat (SecFromTime t))
      @ ''.'' @ pad 3 (nat (msFromTime t)) @ ''Z''"
  have iso: "toISOString t = ?d @ ''T'' @ ?r"
    unfolding toISOString_def Let_def by (simp only: append_assoc)
  have "\<forall>c \<in> set ?d. c \<noteq> CHR ''T''"
    using date_part_not_T[of _ ?yy] year_part_not_T[of _ ?y] by blast
  then have "split_first CHR ''T'' (?d @ ''T'' @ ?r) = ?d"
    by (rule split_first_T)
  then show ?thesis unfolding iso .
qed

lemma normalizeDate_Some:
  assumes "Date_parse s = Some t"
  shows "normalizeDate Date_parse s = split_first CHR ''T'' (toISOString t)"
  using assms by (simp add: normalizeDate_def Let_def)

lemma year_10000: "YearFromTime 253402300800000 = 10000"
  by (simp add: YearFromTime_def YearFromDay_def Day_def msPerDay_def)

lemma month_date_10000:
  "MonthFromTime 253402300800000 = 0" "DateFromTime 253402300800000 = 1"
proof -
  have d: "DayWithinYear 253402300800000 = 0"
    by (simp add: DayWithinYear_def year_10000 DayFromYear_def Day_def msPerDay_def)
  have l: "InLeapYear 253402300800000 = 1"
    by (simp add: InLeapYear_def year_10000 DaysInYear_def)
  show m: "MonthFromTime 253402300800000 = 0"
    by (simp add: MonthFromTime_def d l)
  show "DateFromTime 253402300800000 = 1"
    by (simp add: DateFromTime_def d l m)
qed

lemma year_2024: "YearFromTime 1728950400000 = 2024"
  by (simp add: YearFromTime_def YearFromDay_def Day_def msPerDay_def)

lemma month_date_2024:
  "MonthFromTime 1728950400000 = 9" "DateFromTime 1728950400000 = 15"
proof -
  have d: "DayWithinYear 1728950400000 = 288"
    by (simp add: DayWithinYear_def year_2024 DayFromYear_def Day_def msPerDay_def)
  have l: "InLeapYear 1728950400000 = 1"
    by (simp add: InLeapYear_def year_2024 DaysInYear_def)
  show m: "MonthFromTime 1728950400000 = 9"
    by (simp add: MonthFromTime_def d l)
  show "DateFromTime 1728950400000 = 15"
    by (simp add: DateFromTime_def d l m)
qed

lemma length_pad: "length (pad w n) = w"
  by (induction w arbitrary: n) simp_all

text \<open>
  C5. What the normalizers do: a string that is no date comes back trimmed; a date whose
  year lies in 0..9999 comes back as four digits, a hyphen, two digits, a hyphen and two
  digits, ten characters; a date of any other year comes back as a sign, six digits of the
  year and the month and day as before, thirteen characters, which is not the form
  YYYY-MM-DD; a time string comes back trimmed. The string
  \<open>+010000-01-01T00:00:00.000Z\<close>, the first instant of the year 10000, is normalized to
  \<open>+010000-01-01\<close>.
\<close>

theorem normalizeDate_behaviour:
  "(Date_parse s = None \<longrightarrow> normalizeDate Date_parse s = trim s)
   \<and> (Date_parse s = Some t \<and> 0 \<le> YearFromTime t \<and> YearFromTime t \<le> 9999 \<longrightarrow>
        normalizeDate Date_parse s =
          pad 4 (nat (YearFromTime t)) @ ''-'' @ pad 2 (nat (MonthFromTime t + 1))
          @ ''-'' @ pad 2 (nat (DateFromTime t))
        \<and> length (normalizeDate Date_parse s) = 10)
   \<and> (Date_parse s = Some t \<and> (YearFromTime t < 0 \<or> 9999 < YearFromTime t) \<longrightarrow>
        normalizeDate Date_parse s =
          (if YearFromTime t < 0 then CHR ''-'' else CHR ''+'')
          # pad 6 (nat \<bar>YearFromTime t\<bar>) @ ''-'' @ pad 2 (nat (MonthFromTime t + 1))
          @ ''-'' @ pad 2 (nat (DateFromTime t))
        \<and> length (normalizeDate Date_parse s) = 13)
   \<and> normalizeTime x = trim x
   \<and> normalizeDate parse_two_dates ''+010000-01-01T00:00:00.000Z'' = ''+010000-01-01''"
proof (intro conjI impI)
  assume "Date_parse s = None"
  then show "normalizeDate Date_parse s = trim s" by (simp add: normalizeDate_def)
next
  assume a: "Date_parse s = Some t \<and> 0 \<le> YearFromTime t \<and> YearFromTime t \<le> 9999"
  then show r: "normalizeDate Date_parse s =
          pad 4 (nat (YearFromTime t)) @ ''-'' @ pad 2 (nat (MonthFromTime t + 1))
          @ ''-'' @ pad 2 (nat (DateFromTime t))"
    by (simp add: normalizeDate_Some split_first_toISOString)
  show "length (normalizeDate Date_parse s) = 10"
    unfolding r by (simp add: length_pad)
next
  assume a: "Date_parse s = Some t \<and> (YearFromTime t < 0 \<or> 9999 < YearFromTime t)"
  show r: "normalizeDate Date_parse s =
          (if YearFromTime t < 0 then CHR ''-'' else CHR ''+'')
          # pad 6 (nat \<bar>YearFromTime t\<bar>) @ ''-'' @ pad 2 (nat (MonthFromTime t + 1))
          @ ''-'' @ pad 2 (nat (DateFromTime t))"
  proof (cases "YearFromTime t < 0")
    case True
    then show ?thesis using a by (simp add: normalizeDate_Some split_first_toISOString)
  next
    case False
    then have "9999 < YearFromTime t" using a by blast
    then show ?thesis using a False by (simp add: normalizeDate_Some split_first_toISOString)
  qed
  show "length (normalizeDate Date_parse s) = 13"
    unfolding r by (simp add: length_pad)
next
  show "normalizeTime x = trim x" by (simp add: normalizeTime_def)
next
  have "parse_two_dates ''+010000-01-01T00:00:00.000Z'' = Some 253402300800000"
    by (simp add: parse_two_dates_def)
  then show "normalizeDate parse_two_dates ''+010000-01-01T00:00:00.000Z'' = ''+010000-01-01''"
    by (simp add: normalizeDate_Some split_first_toISOString year_10000 month_date_10000
          pad_numeral digit_char_def)
qed

theorem normalizeDate_behaviour_witness:
  "parse_two_dates ''October 15-16, 2024 '' = None
   \<and> normalizeDate parse_two_dates ''October 15-16, 2024 '' = ''October 15-16, 2024''
   \<and> parse_two_dates ''2024-10-15'' = Some 1728950400000
   \<and> normalizeDate parse_two_dates ''2024-10-15'' = ''2024-10-15''
   \<and> parse_two_dates ''+010000-01-01T00:00:00.000Z'' = Some 253402300800000
   \<and> normalizeDate parse_two_dates ''+010000-01-01T00:00:00.000Z'' = ''+010000-01-01''
   \<and> length (normalizeDate parse_two_dates ''+010000-01-01T00:00:00.000Z'') = 13"
proof -
  have p1: "parse_two_dates ''October 15-16, 2024 '' = None"
    and p2: "parse_two_dates ''2024-10-15'' = Some 1728950400000"
    and p3: "parse_two_dates ''+010000-01-01T00:00:00.000Z'' = Some 253402300800000"
    by (simp_all add: parse_two_dates_def)
  have t: "trim ''October 15-16, 2024 '' = ''October 15-16, 2024''" by code_simp
  show ?thesis
    using normalizeDate_behaviour[of parse_two_dates "''October 15-16, 2024 ''"]
      normalizeDate_behaviour[of parse_two_dates "''2024-10-15''" 1728950400000]
      normalizeDate_behaviour[of parse_two_dates "''+010000-01-01T00:00:00.000Z''"
        253402300800000]
      p1 p2 p3 t
    by (simp add: year_2024 month_date_2024 year_10000 month_date_10000 pad_numeral
          digit_char_def)
qed

end
